theory Spec2Isabelle
  imports Main "HOL-Library.Multiset"
begin

section \<open>Time values of the host language\<close>

text \<open>
  The report generator builds \<^verbatim>\<open>Date\<close> objects from its inputs and from the commit
  timestamps, and uses \<^verbatim>\<open>getMonth\<close>, \<^verbatim>\<open>setMonth\<close>, \<^verbatim>\<open>toISOString\<close> and the
  comparison of dates. These are operations of the language (ECMA-262, "Date Objects"); they are
  written out here from the language definition, under its own names. A time value is a number
  of milliseconds since 1970-01-01T00:00:00Z; the value NaN of an invalid date is \<open>None\<close>.
\<close>

definition msPerDay :: int where
  "msPerDay = 86400000"

definition Day :: "int \<Rightarrow> int" where
  "Day t = t div msPerDay"

definition TimeWithinDay :: "int \<Rightarrow> int" where
  "TimeWithinDay t = t mod msPerDay"

definition DaysInYear :: "int \<Rightarrow> int" where
  "DaysInYear y =
     (if y mod 4 \<noteq> 0 then 365
      else if y mod 100 \<noteq> 0 then 366
      else if y mod 400 \<noteq> 0 then 365
      else 366)"

definition DayFromYear :: "int \<Rightarrow> int" where
  "DayFromYear y =
     365 * (y - 1970) + (y - 1969) div 4 - (y - 1901) div 100 + (y - 1601) div 400"

text \<open>
  \<^verbatim>\<open>YearFromTime(t)\<close> is "the largest integer y such that TimeFromYear(y) \<le> t". It is
  computed by walking down from a year that is not too small.
\<close>

function year_down :: "int \<Rightarrow> int \<Rightarrow> int" where
  "year_down d y = (if d < DayFromYear y then year_down d (y - 1) else y)"
  by pat_completeness auto
termination
  by (relation "measure (\<lambda>(d, y). nat (DayFromYear y - d))")
     (auto simp: DayFromYear_def)

declare year_down.simps [simp del]

definition year_start :: "int \<Rightarrow> int" where
  "year_start d = 1970 + (if 0 \<le> d then d div 365 else d div 366)"

definition YearFromTime :: "int \<Rightarrow> int" where
  "YearFromTime t = year_down (Day t) (year_start (Day t))"

definition InLeapYear :: "int \<Rightarrow> int" where
  "InLeapYear t = (if DaysInYear (YearFromTime t) = 366 then 1 else 0)"

definition DayWithinYear :: "int \<Rightarrow> int" where
  "DayWithinYear t = Day t - DayFromYear (YearFromTime t)"

definition MonthFromTime :: "int \<Rightarrow> int" where
  "MonthFromTime t =
     (let d = DayWithinYear t; l = InLeapYear t in
      if d < 31 then 0
      else if d < 59 + l then 1
      else if d < 90 + l then 2
      else if d < 120 + l then 3
      else if d < 151 + l then 4
      else if d < 181 + l then 5
      else if d < 212 + l then 6
      else if d < 243 + l then 7
      else if d < 273 + l then 8
      else if d < 304 + l then 9
      else if d < 334 + l then 10
      else 11)"

definition DateFromTime :: "int \<Rightarrow> int" where
  "DateFromTime t =
     (let d = DayWithinYear t; l = InLeapYear t; m = MonthFromTime t in
      if m = 0 then d + 1
      else if m = 1 then d - 30
      else if m = 2 then d - 58 - l
      else if m = 3 then d - 89 - l
      else if m = 4 then d - 119 - l
      else if m = 5 then d - 150 - l
      else if m = 6 then d - 180 - l
      else if m = 7 then d - 211 - l
      else if m = 8 then d - 242 - l
      else if m = 9 then d - 272 - l
      else if m = 10 then d - 303 - l
      else d - 333 - l)"

definition HourFromTime :: "int \<Rightarrow> int" where
  "HourFromTime t = (t div 3600000) mod 24"

definition MinFromTime :: "int \<Rightarrow> int" where
  "MinFromTime t = (t div 60000) mod 60"

definition SecFromTime :: "int \<Rightarrow> int" where
  "SecFromTime t = (t div 1000) mod 60"

definition msFromTime :: "int \<Rightarrow> int" where
  "msFromTime t = t mod 1000"

definition MakeTime :: "int \<Rightarrow> int \<Rightarrow> int \<Rightarrow> int \<Rightarrow> int" where
  "MakeTime h m s ms = h * 3600000 + m * 60000 + s * 1000 + ms"

text \<open>The day number on which month \<open>mn\<close> (0 to 11) of a year begins, within that year.\<close>

definition month_start :: "int \<Rightarrow> int \<Rightarrow> int" where
  "month_start mn l =
     (if mn = 0 then 0
      else if mn = 1 then 31
      else if mn = 2 then 59 + l
      else if mn = 3 then 90 + l
      else if mn = 4 then 120 + l
      else if mn = 5 then 151 + l
      else if mn = 6 then 181 + l
      else if mn = 7 then 212 + l
      else if mn = 8 then 243 + l
      else if mn = 9 then 273 + l
      else if mn = 10 then 304 + l
      else 334 + l)"

text \<open>
  \<^verbatim>\<open>MakeDay(year, month, date)\<close>: a month outside 0 to 11 carries into the year, and a
  day of the month beyond the month's end runs on into the following month.
\<close>

definition MakeDay :: "int \<Rightarrow> int \<Rightarrow> int \<Rightarrow> int" where
  "MakeDay year month date =
     (let ym = year + month div 12; mn = month mod 12 in
      DayFromYear ym + month_start mn (if DaysInYear ym = 366 then 1 else 0) + date - 1)"

definition MakeDate :: "int \<Rightarrow> int \<Rightarrow> int" where
  "MakeDate day time = day * msPerDay + time"

definition TimeClip :: "int \<Rightarrow> int option" where
  "TimeClip t = (if \<bar>t\<bar> > 8640000000000000 then None else Some t)"

text \<open>
  The host's time zone enters through \<^verbatim>\<open>LocalTime\<close> and \<^verbatim>\<open>UTC\<close>. It is a
  parameter \<open>tza\<close>, the offset of local time from UTC in milliseconds, taken as fixed over
  the period looked at (no daylight saving change inside it).
\<close>

definition LocalTime :: "int \<Rightarrow> int \<Rightarrow> int" where
  "LocalTime tza t = t + tza"

definition UTC :: "int \<Rightarrow> int \<Rightarrow> int" where
  "UTC tza t = t - tza"

text \<open>\<^verbatim>\<open>Date.prototype.getMonth\<close>: the month of the local time, NaN for an invalid date.\<close>

definition getMonth :: "int \<Rightarrow> int option \<Rightarrow> int option" where
  "getMonth tza D = (case D of None \<Rightarrow> None | Some t \<Rightarrow> Some (MonthFromTime (LocalTime tza t)))"

text \<open>
  \<^verbatim>\<open>Date.prototype.setMonth(month)\<close>: year, day of the month and time of day of the local
  time are kept, the month is replaced, and the result goes through \<^verbatim>\<open>MakeDay\<close>.
\<close>

definition setMonth :: "int \<Rightarrow> int option \<Rightarrow> int option \<Rightarrow> int option" where
  "setMonth tza D month =
     (case D of
        None \<Rightarrow> None
      | Some t0 \<Rightarrow>
          (case month of
             None \<Rightarrow> None
           | Some m \<Rightarrow>
               (let t = LocalTime tza t0;
                    newDate = MakeDate (MakeDay (YearFromTime t) m (DateFromTime t)) (TimeWithinDay t)
                in TimeClip (UTC tza newDate))))"

text \<open>The relational operator on two dates compares their time values; with NaN it is false.\<close>

definition date_gt :: "int option \<Rightarrow> int option \<Rightarrow> bool" where
  "date_gt a b = (case a of None \<Rightarrow> False | Some x \<Rightarrow> (case b of None \<Rightarrow> False | Some y \<Rightarrow> x > y))"

section \<open>Strings\<close>

text \<open>
  A string of the host language is a sequence of UTF-16 code units; \<^verbatim>\<open>substring\<close>,
  \<^verbatim>\<open>trim\<close> and \<^verbatim>\<open>split\<close> count and compare code units. The texts of the program that
  are not ASCII (they are Korean) are given by their code units, with a translation beside them.
\<close>

type_synonym ustring = "nat list"

definition js :: "string \<Rightarrow> ustring" where
  "js s = map of_char s"

text \<open>A number inside a template literal: its decimal digits.\<close>

fun dec :: "nat \<Rightarrow> ustring" where
  "dec n = (if n < 10 then [48 + n] else dec (n div 10) @ [48 + n mod 10])"

declare dec.simps [simp del]

text \<open>\<^verbatim>\<open>padStart\<close> with zeros, as the ISO format does for each of its fields.\<close>

definition pad :: "nat \<Rightarrow> nat \<Rightarrow> ustring" where
  "pad k n = replicate (k - length (dec n)) 48 @ dec n"

text \<open>\<^verbatim>\<open>s.substring(0, 7)\<close>: the first seven code units, or all of a shorter string.\<close>

definition substring_0_7 :: "ustring \<Rightarrow> ustring" where
  "substring_0_7 s = take 7 s"

text \<open>\<^verbatim>\<open>s.split('T')[0]\<close>: the part of the string before its first letter T (code unit 84).\<close>

definition split_T_0 :: "ustring \<Rightarrow> ustring" where
  "split_T_0 s = takeWhile (\<lambda>c. c \<noteq> 84) s"

text \<open>
  \<^verbatim>\<open>String.prototype.trim\<close> removes white space and line terminators from both ends:
  TAB, LF, VT, FF, CR, SP, NBSP, U+1680, U+2000 to U+200A, U+2028, U+2029, U+202F, U+205F,
  U+3000 and U+FEFF.
\<close>

definition is_space :: "nat \<Rightarrow> bool" where
  "is_space c \<longleftrightarrow>
     c = 9 \<or> c = 10 \<or> c = 11 \<or> c = 12 \<or> c = 13 \<or> c = 32 \<or> c = 160 \<or> c = 5760 \<or>
     (8192 \<le> c \<and> c \<le> 8202) \<or> c = 8232 \<or> c = 8233 \<or> c = 8239 \<or> c = 8287 \<or>
     c = 12288 \<or> c = 65279"

definition trim :: "ustring \<Rightarrow> ustring" where
  "trim s = rev (dropWhile is_space (rev (dropWhile is_space s)))"

section \<open>Errors\<close>

text \<open>
  A thrown value is an \<^verbatim>\<open>Error\<close> object; the program reads its \<^verbatim>\<open>message\<close> only.
  A function that may throw returns \<open>Inl\<close> of the error.
\<close>

datatype jserror = Error (message: ustring)

subsection \<open>Dates from text, and to text\<close>

text \<open>
  The two dates of the window are asked for in the form YYYY-MM-DD, and the prompt accepts only
  text of that form which \<^verbatim>\<open>new Date\<close> reads as a valid date. They are kept as their
  three numbers. \<^verbatim>\<open>new Date("YYYY-MM-DD")\<close> is midnight UTC of that day; the engine
  (V8) takes a month from 1 to 12 and a day from 1 to 31 whatever the month, and lets a day
  beyond the month's end run on into the next month, as \<^verbatim>\<open>MakeDay\<close> does.
\<close>

record ymd =
  yyyy :: nat
  mm :: nat
  dd :: nat

definition ymd_text :: "ymd \<Rightarrow> ustring" where
  "ymd_text s = pad 4 (yyyy s) @ js ''-'' @ pad 2 (mm s) @ js ''-'' @ pad 2 (dd s)"

definition Date_of_ymd :: "ymd \<Rightarrow> int option" where
  "Date_of_ymd s =
     (if 1 \<le> mm s \<and> mm s \<le> 12 \<and> 1 \<le> dd s \<and> dd s \<le> 31
      then TimeClip (MakeDate (MakeDay (int (yyyy s)) (int (mm s) - 1) (int (dd s))) 0)
      else None)"

text \<open>
  A commit's date is asked of the version control system in its format \<^verbatim>\<open>%ai\<close>,
  \<^verbatim>\<open>YYYY-MM-DD HH:MM:SS +hhmm\<close>: a local date and time and the offset of that local time
  from UTC. It is kept as its fields, the offset in minutes. \<^verbatim>\<open>new Date\<close> reads it as that
  local time less the offset, and as an invalid date when a field is out of range. This is the
  reading of the texts that the version control system prints: a year of four digits, from
  1970 on.
\<close>

record ai_date =
  ai_year :: nat
  ai_month :: nat
  ai_day :: nat
  ai_hour :: nat
  ai_minute :: nat
  ai_second :: nat
  ai_offset :: int

definition Date_of_ai :: "ai_date \<Rightarrow> int option" where
  "Date_of_ai a =
     (if 1 \<le> ai_month a \<and> ai_month a \<le> 12 \<and> 1 \<le> ai_day a \<and> ai_day a \<le> 31 \<and>
         ai_hour a \<le> 23 \<and> ai_minute a \<le> 59 \<and> ai_second a \<le> 59
      then TimeClip
             (MakeDate (MakeDay (int (ai_year a)) (int (ai_month a) - 1) (int (ai_day a)))
                       (MakeTime (int (ai_hour a)) (int (ai_minute a)) (int (ai_second a)) 0)
              - ai_offset a * 60000)
      else None)"

text \<open>
  \<^verbatim>\<open>Date.prototype.toISOString\<close>: throws a RangeError for an invalid date; otherwise
  \<^verbatim>\<open>YYYY-MM-DDTHH:mm:ss.sssZ\<close> in UTC, the year with four digits from 0 to 9999 and with a
  sign and six digits outside.
\<close>

definition iso_year :: "int \<Rightarrow> ustring" where
  "iso_year y =
     (if 0 \<le> y \<and> y \<le> 9999 then pad 4 (nat y)
      else (if y < 0 then js ''-'' else js ''+'') @ pad 6 (nat \<bar>y\<bar>))"

definition toISOString :: "int option \<Rightarrow> jserror + ustring" where
  "toISOString D =
     (case D of
        None \<Rightarrow> Inl (Error (js ''Invalid time value''))
      | Some t \<Rightarrow>
          Inr (iso_year (YearFromTime t) @ js ''-'' @ pad 2 (nat (MonthFromTime t + 1)) @ js ''-'' @
               pad 2 (nat (DateFromTime t)) @ js ''T'' @ pad 2 (nat (HourFromTime t)) @ js '':'' @
               pad 2 (nat (MinFromTime t)) @ js '':'' @ pad 2 (nat (SecFromTime t)) @ js ''.'' @
               pad 3 (nat (msFromTime t)) @ js ''Z''))"

section \<open>The summarizer: \<^verbatim>\<open>generateMessage\<close>\<close>

text \<open>
  What the program sees and does outside itself is recorded, in order, as a trace of events: the
  lines it prints and the calls it makes to the version control system, to the text generation
  service and to the file system. The options of the log are the window and the author filter;
  the fixed \<^verbatim>\<open>format\<close> of the program is what gives a commit its five fields and is
  not repeated. The numbers of a request are passed on as they are.
\<close>

record log_options =
  since :: ustring
  until :: ustring
  author_opt :: "ustring option"

record chat_request =
  req_model :: ustring
  req_system :: ustring
  req_user :: ustring
  req_temperature :: "int option"
  req_max_tokens :: "int option"

datatype event =
    ConsoleLog ustring
  | ConsoleError ustring "jserror option"
  | GitLog log_options
  | GitShow "ustring list"
  | ChatCreate chat_request
  | WriteFile ustring ustring

text \<open>
  The answer of the service, as far as \<^verbatim>\<open>completion?.choices?.[0]?.message?.content\<close>
  reads it: each step of that chain may be missing (\<open>None\<close>).
\<close>

record chat_message =
  content :: "ustring option"

record chat_choice =
  choice_message :: "chat_message option"

record chat_completion =
  choices :: "chat_choice list option"

text \<open>
  A commit as the log gives it. The field \<open>subject\<close> is the program's
  \<^verbatim>\<open>commit.message\<close>, the subject line (\<^verbatim>\<open>%s\<close>).
\<close>

record commit =
  hash :: ustring
  date :: ai_date
  subject :: ustring
  author_name :: ustring
  author_email :: ustring

text \<open>
  The host: the environment variables, the time zone, and the collaborators. A collaborator
  answers from a state \<open>'x\<close> of the outside world, which it may change, so two calls with the
  same arguments may be answered differently. \<^verbatim>\<open>path.join\<close> is taken as given.
\<close>

record 'x host =
  tza :: int
  OPENAI_API_KEY :: "ustring option"
  OPENAI_MODEL :: "ustring option"
  git_log :: "log_options \<Rightarrow> 'x \<Rightarrow> (jserror + commit list) \<times> 'x"
  git_show :: "ustring list \<Rightarrow> 'x \<Rightarrow> (jserror + ustring) \<times> 'x"
  chat_create :: "chat_request \<Rightarrow> 'x \<Rightarrow> (jserror + chat_completion option) \<times> 'x"
  write_fault :: "ustring \<Rightarrow> ustring \<Rightarrow> 'x \<Rightarrow> jserror option \<times> 'x"
  path_join :: "ustring \<Rightarrow> ustring \<Rightarrow> ustring"

text \<open>
  The state of a run: the files by path, the outside world, and the trace so far.
\<close>

record 'x state =
  files :: "ustring \<rightharpoonup> ustring"
  outside :: 'x
  trace :: "event list"

definition emit :: "event \<Rightarrow> 'x state \<Rightarrow> 'x state" where
  "emit e st = st\<lparr>trace := trace st @ [e]\<rparr>"

definition console_log :: "ustring \<Rightarrow> 'x state \<Rightarrow> 'x state" where
  "console_log s st = emit (ConsoleLog s) st"

definition console_error :: "ustring \<Rightarrow> jserror option \<Rightarrow> 'x state \<Rightarrow> 'x state" where
  "console_error s e st = emit (ConsoleError s e) st"

definition call_git_log :: "'x host \<Rightarrow> log_options \<Rightarrow> 'x state \<Rightarrow> (jserror + commit list) \<times> 'x state" where
  "call_git_log h opts st =
     (let st1 = emit (GitLog opts) st; (r, x) = git_log h opts (outside st1)
      in (r, st1\<lparr>outside := x\<rparr>))"

definition call_git_show :: "'x host \<Rightarrow> ustring list \<Rightarrow> 'x state \<Rightarrow> (jserror + ustring) \<times> 'x state" where
  "call_git_show h args st =
     (let st1 = emit (GitShow args) st; (r, x) = git_show h args (outside st1)
      in (r, st1\<lparr>outside := x\<rparr>))"

definition call_chat_create ::
  "'x host \<Rightarrow> chat_request \<Rightarrow> 'x state \<Rightarrow> (jserror + chat_completion option) \<times> 'x state" where
  "call_chat_create h req st =
     (let st1 = emit (ChatCreate req) st; (r, x) = chat_create h req (outside st1)
      in (r, st1\<lparr>outside := x\<rparr>))"

text \<open>
  \<^verbatim>\<open>fs.writeFileSync(path, data, 'utf8')\<close>: unless the system refuses, the file at the path
  holds exactly the data afterwards, whether or not it existed before.
\<close>

definition writeFileSync :: "'x host \<Rightarrow> ustring \<Rightarrow> ustring \<Rightarrow> 'x state \<Rightarrow> jserror option \<times> 'x state" where
  "writeFileSync h p data st =
     (let st1 = emit (WriteFile p data) st; (r, x) = write_fault h p data (outside st1)
      in case r of
           Some e \<Rightarrow> (Some e, st1\<lparr>outside := x\<rparr>)
         | None \<Rightarrow> (None, st1\<lparr>files := (files st1)(p \<mapsto> data), outside := x\<rparr>))"

text \<open>The argument \<^verbatim>\<open>prompt\<close> may be any value: a string, or something else.\<close>

datatype jsvalue = JString ustring | JOther

record gm_options =
  opt_system :: "ustring option"
  opt_model :: "ustring option"
  opt_temperature :: "int option"
  opt_maxTokens :: "int option"

definition no_options :: gm_options where
  "no_options = \<lparr>opt_system = None, opt_model = None, opt_temperature = None, opt_maxTokens = None\<rparr>"

text \<open>"prompt must be a string."\<close>

definition err_prompt :: ustring where
  "err_prompt = js ''prompt'' @ [0xB294] @ js '' '' @ [0xBB38, 0xC790, 0xC5F4, 0xC774, 0xC5B4, 0xC57C] @
     js '' '' @ [0xD569, 0xB2C8, 0xB2E4] @ js ''.''"

text \<open>"The environment variable OPENAI_API_KEY is not set."\<close>

definition err_api_key :: ustring where
  "err_api_key = [0xD658, 0xACBD, 0xBCC0, 0xC218] @ js '' OPENAI_API_KEY'' @ [0xAC00] @ js '' '' @
     [0xC124, 0xC815, 0xB418, 0xC5B4] @ js '' '' @ [0xC788, 0xC9C0] @ js '' '' @
     [0xC54A, 0xC2B5, 0xB2C8, 0xB2E4] @ js ''.''"

text \<open>"The model did not return a valid response."\<close>

definition err_no_text :: ustring where
  "err_no_text = [0xBAA8, 0xB378, 0xC774] @ js '' '' @ [0xC720, 0xD6A8, 0xD55C] @ js '' '' @
     [0xC751, 0xB2F5, 0xC744] @ js '' '' @ [0xBC18, 0xD658, 0xD558, 0xC9C0] @ js '' '' @
     [0xC54A, 0xC558, 0xC2B5, 0xB2C8, 0xB2E4] @ js ''.''"

text \<open>
  The default system prompt: "You are a concise and useful Korean-language assistant. Avoid
  needless embellishment and answer with the essentials only."
\<close>

definition default_system :: ustring where
  "default_system = [0xB2F9, 0xC2E0, 0xC740] @ js '' '' @ [0xAC04, 0xACB0, 0xD558, 0xACE0] @ js '' '' @
     [0xC720, 0xC6A9, 0xD55C] @ js '' '' @ [0xD55C, 0xAD6D, 0xC5B4] @ js '' '' @
     [0xC5B4, 0xC2DC, 0xC2A4, 0xD134, 0xD2B8, 0xC785, 0xB2C8, 0xB2E4] @ js ''. '' @
     [0xBD88, 0xD544, 0xC694, 0xD55C] @ js '' '' @ [0xC218, 0xC2DD, 0xC744] @ js '' '' @
     [0xD53C, 0xD558, 0xACE0] @ js '' '' @ [0xD575, 0xC2EC, 0xB9CC] @ js '' '' @
     [0xB2F5, 0xD558, 0xC138, 0xC694] @ js ''.''"

text \<open>\<^verbatim>\<open>process.env.OPENAI_MODEL || 'gpt-4.1-mini'\<close>: an unset or empty variable gives the default.\<close>

definition DEFAULT_MODEL :: "'x host \<Rightarrow> ustring" where
  "DEFAULT_MODEL h =
     (case OPENAI_MODEL h of None \<Rightarrow> js ''gpt-4.1-mini'' | Some m \<Rightarrow> if m = [] then js ''gpt-4.1-mini'' else m)"

text \<open>\<^verbatim>\<open>completion?.choices?.[0]?.message?.content?.trim()\<close>; \<open>None\<close> is \<^verbatim>\<open>undefined\<close>.\<close>

definition completion_text :: "chat_completion option \<Rightarrow> ustring option" where
  "completion_text completion =
     (case completion of
        None \<Rightarrow> None
      | Some c \<Rightarrow>
          (case choices c of
             None \<Rightarrow> None
           | Some [] \<Rightarrow> None
           | Some (ch # _) \<Rightarrow>
               (case choice_message ch of
                  None \<Rightarrow> None
                | Some m \<Rightarrow> (case content m of None \<Rightarrow> None | Some s \<Rightarrow> Some (trim s)))))"

text \<open>The request: the options' defaults are destructured, then the two messages are built.\<close>

definition build_request :: "'x host \<Rightarrow> ustring \<Rightarrow> gm_options \<Rightarrow> chat_request" where
  "build_request h p options =
     \<lparr>req_model = (case opt_model options of None \<Rightarrow> DEFAULT_MODEL h | Some m \<Rightarrow> m),
      req_system = (case opt_system options of None \<Rightarrow> default_system | Some s \<Rightarrow> s),
      req_user = p,
      req_temperature = opt_temperature options,
      req_max_tokens = opt_maxTokens options\<rparr>"

definition generateMessage ::
  "'x host \<Rightarrow> jsvalue \<Rightarrow> gm_options \<Rightarrow> 'x state \<Rightarrow> (jserror + ustring) \<times> 'x state" where
  "generateMessage h prompt options st =
     (case prompt of
        JOther \<Rightarrow> (Inl (Error err_prompt), st)
      | JString p \<Rightarrow>
          if p = [] then (Inl (Error err_prompt), st)
          else if OPENAI_API_KEY h = None \<or> OPENAI_API_KEY h = Some [] then (Inl (Error err_api_key), st)
          else
            (case call_chat_create h (build_request h p options) st of
               (Inl e, st1) \<Rightarrow> (Inl e, st1)
             | (Inr completion, st1) \<Rightarrow>
                 (case completion_text completion of
                    None \<Rightarrow> (Inl (Error err_no_text), st1)
                  | Some text \<Rightarrow>
                      if text = [] then (Inl (Error err_no_text), st1) else (Inr text, st1))))"

section \<open>The report generator: \<^verbatim>\<open>main\<close>\<close>

subsection \<open>Texts\<close>

record answers =
  gitPath :: ustring
  startDate :: ymd
  endDate :: ymd
  author :: ustring

text \<open>"==== Information entered ====", "Path:", "Start date:", "End date:", "Author:".\<close>

definition msg_input_header :: ustring where
  "msg_input_header = [0x0A] @ js ''==== '' @ [0xC785, 0xB825, 0xD55C] @ js '' '' @ [0xC815, 0xBCF4] @ js '' ====''"

definition msg_path :: "ustring \<Rightarrow> ustring" where
  "msg_path p = [0xACBD, 0xB85C] @ js '': '' @ p"

definition msg_start :: "ustring \<Rightarrow> ustring" where
  "msg_start s = [0xC2DC, 0xC791] @ js '' '' @ [0xB0A0, 0xC9DC] @ js '': '' @ s"

definition msg_end :: "ustring \<Rightarrow> ustring" where
  "msg_end s = [0xC885, 0xB8CC] @ js '' '' @ [0xB0A0, 0xC9DC] @ js '': '' @ s"

definition msg_author :: "ustring \<Rightarrow> ustring" where
  "msg_author s = [0xC791, 0xC131, 0xC790] @ js '': '' @ s"

text \<open>"The start date is later than the end date."\<close>

definition msg_invalid_range :: ustring where
  "msg_invalid_range = [0xC2DC, 0xC791] @ js '' '' @ [0xB0A0, 0xC9DC, 0xAC00] @ js '' '' @ [0xC885, 0xB8CC] @
     js '' '' @ [0xB0A0, 0xC9DC, 0xBCF4, 0xB2E4] @ js '' '' @ [0xB2A6, 0xC2B5, 0xB2C8, 0xB2E4] @ js ''.''"

text \<open>"The period may not exceed two months at most. Token usage could become too large."\<close>

definition msg_range_too_large :: ustring where
  "msg_range_too_large = [0xC870, 0xD68C] @ js '' '' @ [0xAE30, 0xAC04, 0xC740] @ js '' '' @ [0xCD5C, 0xB300] @
     js '' '' @ [0xB450] @ js '' '' @ [0xB2EC, 0xC744] @ js '' '' @ [0xB118, 0xC744] @ js '' '' @ [0xC218] @
     js '' '' @ [0xC5C6, 0xC2B5, 0xB2C8, 0xB2E4] @ js ''. '' @ [0xD1A0, 0xD070] @ js '' '' @
     [0xC0AC, 0xC6A9, 0xB7C9, 0xC774] @ js '' '' @ [0xB108, 0xBB34] @ js '' '' @ [0xB9CE, 0xC544, 0xC9C8] @
     js '' '' @ [0xC218] @ js '' '' @ [0xC788, 0xC2B5, 0xB2C8, 0xB2E4] @ js ''.''"

text \<open>"==== Looking up the commits of the period... ===="\<close>

definition msg_searching :: ustring where
  "msg_searching = [0x0A] @ js ''==== '' @ [0xAE30, 0xAC04] @ js '' '' @ [0xB0B4] @ js '' '' @ [0xCEE4, 0xBC0B] @
     js '' '' @ [0xC870, 0xD68C] @ js '' '' @ [0xC911] @ js ''... ====''"

text \<open>"There are no commits in the given period."\<close>

definition msg_no_commits :: ustring where
  "msg_no_commits = [0xC9C0, 0xC815, 0xB41C] @ js '' '' @ [0xAE30, 0xAC04, 0xC5D0] @ js '' '' @
     [0xCEE4, 0xBC0B, 0xC774] @ js '' '' @ [0xC5C6, 0xC2B5, 0xB2C8, 0xB2E4] @ js ''.''"

text \<open>"Found n commits in total."\<close>

definition msg_found :: "nat \<Rightarrow> ustring" where
  "msg_found n = [0xCD1D] @ js '' '' @ dec n @ [0xAC1C, 0xC758] @ js '' '' @ [0xCEE4, 0xBC0B, 0xC744] @ js '' '' @
     [0xCC3E, 0xC558, 0xC2B5, 0xB2C8, 0xB2E4] @ js ''.''"

text \<open>"==== Processing the commits of day d (n) ===="\<close>

definition msg_day_header :: "ustring \<Rightarrow> nat \<Rightarrow> ustring" where
  "msg_day_header d n = [0x0A] @ js ''==== '' @ d @ js '' '' @ [0xCEE4, 0xBC0B] @ js '' '' @ [0xCC98, 0xB9AC] @
     js '' '' @ [0xC911] @ js '' ('' @ dec n @ [0xAC1C] @ js '') ====''"

text \<open>The title line "# d commit report" and the count line "n commits in total".\<close>

definition report_title :: "ustring \<Rightarrow> ustring" where
  "report_title d = js ''# '' @ d @ js '' '' @ [0xCEE4, 0xBC0B] @ js '' '' @ [0xB9AC, 0xD3EC, 0xD2B8, 0x0A, 0x0A]"

definition report_count :: "nat \<Rightarrow> ustring" where
  "report_count n = [0xCD1D] @ js '' '' @ dec n @ [0xAC1C, 0xC758] @ js '' '' @ [0xCEE4, 0xBC0B, 0x0A, 0x0A]"

text \<open>"  Processing: hash - subject"\<close>

definition msg_processing :: "commit \<Rightarrow> ustring" where
  "msg_processing c = js ''  '' @ [0xCC98, 0xB9AC] @ js '' '' @ [0xC911] @ js '': '' @
     substring_0_7 (hash c) @ js '' - '' @ subject c"

text \<open>
  The instruction put before a commit's text: "Analyse the commit message and the changes below
  and explain concisely what was done:".
\<close>

definition summary_instruction :: ustring where
  "summary_instruction = [0xC544, 0xB798] @ js '' '' @ [0xCEE4, 0xBC0B] @ js '' '' @
     [0xBA54, 0xC2DC, 0xC9C0, 0xC640] @ js '' '' @ [0xBCC0, 0xACBD, 0xC0AC, 0xD56D, 0xC744] @ js '' '' @
     [0xBD84, 0xC11D, 0xD574, 0xC11C] @ js '' '' @ [0xBB34, 0xC5C7, 0xC744] @ js '' '' @
     [0xD588, 0xB294, 0xC9C0] @ js '' '' @ [0xAC04, 0xACB0, 0xD558, 0xAC8C] @ js '' '' @
     [0xC124, 0xBA85, 0xD574, 0xC918] @ js '':'' @ [0x0A, 0x0A]"

text \<open>
  The parts of an entry: the heading "## Commit i: hash", the line "**Message**: subject", the
  section "### AI summary", and the separator.
\<close>

definition entry_heading :: "nat \<Rightarrow> commit \<Rightarrow> ustring" where
  "entry_heading i c = js ''## '' @ [0xCEE4, 0xBC0B] @ js '' '' @ dec (i + 1) @ js '': '' @ substring_0_7 (hash c)"

definition subject_line :: "commit \<Rightarrow> ustring" where
  "subject_line c = js ''**'' @ [0xBA54, 0xC2DC, 0xC9C0] @ js ''**: '' @ subject c @ [0x0A, 0x0A]"

definition summary_section :: "ustring \<Rightarrow> ustring" where
  "summary_section s = js ''### AI '' @ [0xC694, 0xC57D, 0x0A] @ s @ [0x0A, 0x0A]"

definition separator :: ustring where
  "separator = js ''---'' @ [0x0A, 0x0A]"

text \<open>The mark " (error occurred)" in a heading, and the line "**Error**: message".\<close>

definition error_mark :: ustring where
  "error_mark = js '' ('' @ [0xC624, 0xB958] @ js '' '' @ [0xBC1C, 0xC0DD] @ js '')''"

definition error_line :: "jserror \<Rightarrow> ustring" where
  "error_line e = js ''**'' @ [0xC624, 0xB958] @ js ''**: '' @ message e @ [0x0A, 0x0A]"

text \<open>"Error while processing commit hash:"\<close>

definition msg_commit_error :: "commit \<Rightarrow> ustring" where
  "msg_commit_error c = [0xCEE4, 0xBC0B] @ js '' '' @ hash c @ js '' '' @ [0xCC98, 0xB9AC] @ js '' '' @ [0xC911] @
     js '' '' @ [0xC624, 0xB958] @ js '':''"

definition report_file_name :: "ustring \<Rightarrow> ustring" where
  "report_file_name d = js ''commit-report-'' @ d @ js ''.md''"

text \<open>"[Saved] report of d: path" and "Error while saving the report of d:".\<close>

definition msg_saved :: "ustring \<Rightarrow> ustring \<Rightarrow> ustring" where
  "msg_saved d p = js ''['' @ [0xC800, 0xC7A5] @ js '' '' @ [0xC644, 0xB8CC] @ js ''] '' @ d @ js '' '' @
     [0xB9AC, 0xD3EC, 0xD2B8] @ js '': '' @ p"

definition msg_save_error :: "ustring \<Rightarrow> ustring" where
  "msg_save_error d = d @ js '' '' @ [0xB9AC, 0xD3EC, 0xD2B8] @ js '' '' @ [0xC800, 0xC7A5] @ js '' '' @ [0xC911] @
     js '' '' @ [0xC624, 0xB958] @ js '':''"

text \<open>"==== All processing finished ====", "A Markdown file was created for each date."\<close>

definition msg_all_done :: ustring where
  "msg_all_done = [0x0A] @ js ''==== '' @ [0xBAA8, 0xB4E0] @ js '' '' @ [0xCC98, 0xB9AC] @ js '' '' @
     [0xC644, 0xB8CC] @ js '' ====''"

definition msg_files_created :: ustring where
  "msg_files_created = [0xAC01] @ js '' '' @ [0xB0A0, 0xC9DC, 0xBCC4, 0xB85C] @ js '' '' @
     [0xB9C8, 0xD06C, 0xB2E4, 0xC6B4] @ js '' '' @ [0xD30C, 0xC77C, 0xC774] @ js '' '' @
     [0xC0DD, 0xC131, 0xB418, 0xC5C8, 0xC2B5, 0xB2C8, 0xB2E4] @ js ''.''"

text \<open>"An error occurred while loading the Git log:"\<close>

definition msg_log_failed :: ustring where
  "msg_log_failed = js ''Git '' @ [0xB85C, 0xADF8, 0xB97C] @ js '' '' @ [0xBD88, 0xB7EC, 0xC624, 0xB294] @ js '' '' @
     [0xC911] @ js '' '' @ [0xC624, 0xB958, 0xAC00] @ js '' '' @
     [0xBC1C, 0xC0DD, 0xD588, 0xC2B5, 0xB2C8, 0xB2E4] @ js '':''"

subsection \<open>The window\<close>

text \<open>
  The two checks of the window. The result is the message with which the run
  stops, or \<open>None\<close> when the window passes. The cap is a copy of the start date moved by
  \<^verbatim>\<open>setMonth(getMonth() + 2)\<close>.
\<close>

definition window_check :: "int \<Rightarrow> ymd \<Rightarrow> ymd \<Rightarrow> ustring option" where
  "window_check z s e =
     (let startD = Date_of_ymd s; endD = Date_of_ymd e in
      if date_gt startD endD then Some msg_invalid_range
      else
        (let twoMonthsLater = setMonth z startD (map_option (\<lambda>m. m + 2) (getMonth z startD)) in
         if date_gt endD twoMonthsLater then Some msg_range_too_large else None))"

subsection \<open>Grouping by day\<close>

text \<open>
  \<^verbatim>\<open>commitsByDate\<close> is an object used as a map from day to an array of commits. Its keys
  are texts of dates, never array indices, so \<^verbatim>\<open>Object.entries\<close> lists them in the order
  in which they were first set: the map is a list of pairs in that order.
\<close>

type_synonym buckets = "(ustring \<times> commit list) list"

definition commit_day :: "commit \<Rightarrow> jserror + ustring" where
  "commit_day c =
     (case toISOString (Date_of_ai (date c)) of
        Inl e \<Rightarrow> Inl e
      | Inr s \<Rightarrow> Inr (split_T_0 s))"

text \<open>
  \<^verbatim>\<open>if (!commitsByDate[k]) commitsByDate[k] = []; commitsByDate[k].push(commit)\<close>
\<close>

fun push_commit :: "buckets \<Rightarrow> ustring \<Rightarrow> commit \<Rightarrow> buckets" where
  "push_commit [] k c = [(k, [c])]"
| "push_commit ((k', cs) # bs) k c =
     (if k' = k then (k', cs @ [c]) # bs else (k', cs) # push_commit bs k c)"

fun group_commits :: "commit list \<Rightarrow> buckets \<Rightarrow> jserror + buckets" where
  "group_commits [] commitsByDate = Inr commitsByDate"
| "group_commits (c # cs) commitsByDate =
     (case commit_day c of
        Inl e \<Rightarrow> Inl e
      | Inr k \<Rightarrow> group_commits cs (push_commit commitsByDate k c))"

subsection \<open>One commit, one day, all days\<close>

definition show_args :: "commit \<Rightarrow> ustring list" where
  "show_args c = [js ''--quiet'', js ''--pretty=format:%B'', js ''--patch'', js ''--stat'', hash c]"

text \<open>The two calls inside the \<^verbatim>\<open>try\<close>: the text of the commit, then its summary.\<close>

definition summarize_commit :: "'x host \<Rightarrow> commit \<Rightarrow> 'x state \<Rightarrow> (jserror + ustring) \<times> 'x state" where
  "summarize_commit h c st =
     (case call_git_show h (show_args c) st of
        (Inl e, st1) \<Rightarrow> (Inl e, st1)
      | (Inr showResult, st1) \<Rightarrow>
          generateMessage h (JString (summary_instruction @ showResult)) no_options st1)"

definition ok_entry :: "nat \<Rightarrow> commit \<Rightarrow> ustring \<Rightarrow> ustring" where
  "ok_entry i c aiSummary =
     entry_heading i c @ [0x0A] @ subject_line c @ summary_section aiSummary @ separator"

definition error_entry :: "nat \<Rightarrow> commit \<Rightarrow> jserror \<Rightarrow> ustring" where
  "error_entry i c commitErr = entry_heading i c @ error_mark @ [0x0A] @ error_line commitErr"

text \<open>The loop over the commits of a day, from index \<open>i\<close>, with the report text so far.\<close>

fun commit_loop :: "'x host \<Rightarrow> nat \<Rightarrow> commit list \<Rightarrow> ustring \<times> 'x state \<Rightarrow> ustring \<times> 'x state" where
  "commit_loop h i [] acc = acc"
| "commit_loop h i (c # cs) (dailyReport, st) =
     (let st1 = console_log (msg_processing c) st in
      case summarize_commit h c st1 of
        (Inr aiSummary, st2) \<Rightarrow>
          commit_loop h (i + 1) cs (dailyReport @ ok_entry i c aiSummary, st2)
      | (Inl commitErr, st2) \<Rightarrow>
          commit_loop h (i + 1) cs
            (dailyReport @ error_entry i c commitErr,
             console_error (msg_commit_error c) (Some commitErr) st2))"

definition process_day :: "'x host \<Rightarrow> answers \<Rightarrow> ustring \<times> commit list \<Rightarrow> 'x state \<Rightarrow> 'x state" where
  "process_day h a b st =
     (let d = fst b; dateCommits = snd b;
          st1 = console_log (msg_day_header d (length dateCommits)) st;
          (dailyReport, st2) =
             commit_loop h 0 dateCommits (report_title d @ report_count (length dateCommits), st1);
          outPath = path_join h (gitPath a) (report_file_name d)
      in case writeFileSync h outPath dailyReport st2 of
           (None, st3) \<Rightarrow> console_log (msg_saved d outPath) st3
         | (Some fileErr, st3) \<Rightarrow> console_error (msg_save_error d) (Some fileErr) st3)"

fun day_loop :: "'x host \<Rightarrow> answers \<Rightarrow> buckets \<Rightarrow> 'x state \<Rightarrow> 'x state" where
  "day_loop h a [] st = st"
| "day_loop h a (b # bs) st = day_loop h a bs (process_day h a b st)"

subsection \<open>The run\<close>

definition echo_answers :: "answers \<Rightarrow> 'x state \<Rightarrow> 'x state" where
  "echo_answers a st =
     (let st1 = console_log msg_input_header st;
          st2 = console_log (msg_path (gitPath a)) st1;
          st3 = console_log (msg_start (ymd_text (startDate a))) st2;
          st4 = console_log (msg_end (ymd_text (endDate a))) st3
      in if author a \<noteq> [] then console_log (msg_author (author a)) st4 else st4)"

definition logOptions :: "answers \<Rightarrow> log_options" where
  "logOptions a =
     \<lparr>since = ymd_text (startDate a), until = ymd_text (endDate a),
      author_opt = (if author a \<noteq> [] then Some (author a) else None)\<rparr>"

definition main :: "'x host \<Rightarrow> answers \<Rightarrow> 'x state \<Rightarrow> 'x state" where
  "main h a st =
     (let st1 = echo_answers a st in
      case window_check (tza h) (startDate a) (endDate a) of
        Some msg \<Rightarrow> console_error msg None st1
      | None \<Rightarrow>
          (let st2 = console_log msg_searching st1 in
           case call_git_log h (logOptions a) st2 of
             (Inl err, st3) \<Rightarrow> console_error msg_log_failed (Some err) st3
           | (Inr commits, st3) \<Rightarrow>
               if commits = [] then console_log msg_no_commits st3
               else
                 (let st4 = console_log (msg_found (length commits)) st3 in
                  case group_commits commits [] of
                    Inl err \<Rightarrow> console_error msg_log_failed (Some err) st4
                  | Inr commitsByDate \<Rightarrow>
                      console_log msg_files_created
                        (console_log msg_all_done (day_loop h a commitsByDate st4)))))"

section \<open>Sample inputs\<close>

text \<open>
  A host whose collaborators answer by the number of calls made so far (the outside world is
  that number): the log lists three commits of two days, the second \<^verbatim>\<open>show\<close> fails, the
  service answers with a text in white space, and the first write is refused.
\<close>

definition sample_commit :: "string \<Rightarrow> nat \<Rightarrow> nat \<Rightarrow> string \<Rightarrow> commit" where
  "sample_commit h d hr s =
     \<lparr>hash = js h,
      date = \<lparr>ai_year = 2024, ai_month = 1, ai_day = d, ai_hour = hr, ai_minute = 0, ai_second = 0,
              ai_offset = 540\<rparr>,
      subject = js s, author_name = js ''dev'', author_email = js ''dev@example.org''\<rparr>"

definition sample_commits :: "commit list" where
  "sample_commits =
     [sample_commit ''aaaaaaaa11'' 3 12 ''one'',
      sample_commit ''bbbbbbbb22'' 2 15 ''two'',
      sample_commit ''cccccccc33'' 4 5 ''three'']"

text \<open>
  Their days in UTC: the third commit, of 4 January 05:00 at +09:00, is of 3 January in UTC.
\<close>

definition sample_buckets :: buckets where
  "sample_buckets =
     [(js ''2024-01-03'', [sample_commit ''aaaaaaaa11'' 3 12 ''one'', sample_commit ''cccccccc33'' 4 5 ''three'']),
      (js ''2024-01-02'', [sample_commit ''bbbbbbbb22'' 2 15 ''two''])]"

definition sample_completion :: "chat_completion option" where
  "sample_completion =
     Some \<lparr>choices = Some [\<lparr>choice_message = Some \<lparr>content = Some (js '' ok '')\<rparr>\<rparr>]\<rparr>"

definition sample_host :: "nat host" where
  "sample_host =
     \<lparr>tza = 0, OPENAI_API_KEY = Some (js ''key''), OPENAI_MODEL = None,
      git_log = (\<lambda>opts x. (Inr sample_commits, x + 1)),
      git_show = (\<lambda>args x. (if x = 3 then Inl (Error (js ''bad'')) else Inr (js ''diff''), x + 1)),
      chat_create = (\<lambda>req x. (Inr sample_completion, x + 1)),
      write_fault = (\<lambda>p d x. (if x = 4 then Some (Error (js ''EACCES'')) else None, x + 1)),
      path_join = (\<lambda>dir file. dir @ js ''/'' @ file)\<rparr>"

definition sample_state :: "nat state" where
  "sample_state = \<lparr>files = Map.empty, outside = 0, trace = []\<rparr>"

definition sample_answers :: answers where
  "sample_answers =
     \<lparr>gitPath = js ''repo'', startDate = \<lparr>yyyy = 2024, mm = 1, dd = 1\<rparr>,
      endDate = \<lparr>yyyy = 2024, mm = 1, dd = 31\<rparr>, author = []\<rparr>"

text \<open>
  A second host, on which each kind of failure happens once. The log lists five commits of
  three days. The second \<^verbatim>\<open>show\<close> fails, the second call of the service throws, the third
  call of the service is answered with white space only, and every write succeeds.
\<close>

definition blank_completion :: "chat_completion option" where
  "blank_completion =
     Some \<lparr>choices = Some [\<lparr>choice_message = Some \<lparr>content = Some (js ''  '')\<rparr>\<rparr>]\<rparr>"

definition fault_commits :: "commit list" where
  "fault_commits =
     [sample_commit ''aaaaaaaa11'' 3 12 ''one'',
      sample_commit ''bbbbbbbb22'' 2 15 ''two'',
      sample_commit ''cccccccc33'' 4 5 ''three'',
      sample_commit ''dddddddd44'' 2 16 ''four'',
      sample_commit ''eeeeeeee55'' 5 12 ''five'']"

definition fault_buckets :: buckets where
  "fault_buckets =
     [(js ''2024-01-03'', [sample_commit ''aaaaaaaa11'' 3 12 ''one'', sample_commit ''cccccccc33'' 4 5 ''three'']),
      (js ''2024-01-02'', [sample_commit ''bbbbbbbb22'' 2 15 ''two'', sample_commit ''dddddddd44'' 2 16 ''four'']),
      (js ''2024-01-05'', [sample_commit ''eeeeeeee55'' 5 12 ''five''])]"

definition fault_host :: "nat host" where
  "fault_host =
     \<lparr>tza = 0, OPENAI_API_KEY = Some (js ''key''), OPENAI_MODEL = None,
      git_log = (\<lambda>opts x. (Inr fault_commits, x + 1)),
      git_show = (\<lambda>args x. (if x = 3 then Inl (Error (js ''bad'')) else Inr (js ''diff''), x + 1)),
      chat_create = (\<lambda>req x.
         (if x = 6 then Inl (Error (js ''down''))
          else if x = 8 then Inr blank_completion else Inr sample_completion, x + 1)),
      write_fault = (\<lambda>p d x. (None, x + 1)),
      path_join = (\<lambda>dir file. dir @ js ''/'' @ file)\<rparr>"

section \<open>Notions of the specification\<close>

text \<open>
  A calendar date: a year of four digits, a month from 1 to 12, and a day that exists in that
  month. These are the dates on which every engine agrees.
\<close>

definition leap_year :: "nat \<Rightarrow> bool" where
  "leap_year y \<longleftrightarrow> y mod 4 = 0 \<and> (y mod 100 \<noteq> 0 \<or> y mod 400 = 0)"

definition days_in_month :: "nat \<Rightarrow> nat \<Rightarrow> nat" where
  "days_in_month y m =
     (if m = 2 then (if leap_year y then 29 else 28)
      else if m = 4 \<or> m = 6 \<or> m = 9 \<or> m = 11 then 30
      else 31)"

definition calendar_date :: "ymd \<Rightarrow> bool" where
  "calendar_date s \<longleftrightarrow>
     yyyy s \<le> 9999 \<and> 1 \<le> mm s \<and> mm s \<le> 12 \<and> 1 \<le> dd s \<and> dd s \<le> days_in_month (yyyy s) (mm s)"

text \<open>The order of calendar dates: by year, then month, then day.\<close>

definition date_before :: "ymd \<Rightarrow> ymd \<Rightarrow> bool" where
  "date_before s e \<longleftrightarrow>
     yyyy s < yyyy e \<or> (yyyy s = yyyy e \<and> (mm s < mm e \<or> (mm s = mm e \<and> dd s < dd e)))"

text \<open>
  The elements of a list in the order in which each appears first, and the buckets of a list of
  commits as the specification describes them: one per day, in the order in which the days
  appear first, each with the commits of that day in the order of the list.
\<close>

definition first_appearances :: "'a list \<Rightarrow> 'a list" where
  "first_appearances xs = rev (remdups (rev xs))"

definition day_buckets :: "ustring list \<Rightarrow> commit list \<Rightarrow> buckets" where
  "day_buckets ks cs = map (\<lambda>k. (k, filter (\<lambda>c. commit_day c = Inr k) cs)) (first_appearances ks)"

text \<open>The calendar date of a time value in UTC, written YYYY-MM-DD.\<close>

definition utc_date_text :: "int \<Rightarrow> ustring" where
  "utc_date_text t =
     pad 4 (nat (YearFromTime t)) @ js ''-'' @ pad 2 (nat (MonthFromTime t + 1)) @ js ''-'' @
     pad 2 (nat (DateFromTime t))"

text \<open>
  Two months after a date, in two readings. With the month-end adjustment of calendar
  arithmetic, a day that the target month does not have becomes that month's last day. With
  roll-over, the missing days are counted on into the month after.
\<close>

definition two_months_on :: "ymd \<Rightarrow> nat \<times> nat" where
  "two_months_on s = (if mm s + 2 > 12 then (yyyy s + 1, mm s + 2 - 12) else (yyyy s, mm s + 2))"

definition add_two_months_clamped :: "ymd \<Rightarrow> ymd" where
  "add_two_months_clamped s =
     (let (y, m) = two_months_on s in
      \<lparr>yyyy = y, mm = m, dd = min (dd s) (days_in_month y m)\<rparr>)"

definition add_two_months_rollover :: "ymd \<Rightarrow> ymd" where
  "add_two_months_rollover s =
     (let (y, m) = two_months_on s in
      if dd s \<le> days_in_month y m then \<lparr>yyyy = y, mm = m, dd = dd s\<rparr>
      else \<lparr>yyyy = y, mm = m + 1, dd = dd s - days_in_month y m\<rparr>)"

text \<open>
  The summarizer and the assembler of the specification. The summarizer gives, for the commits
  of a day in their order, the result of each: the summary, or the error that was caught. The
  state goes through as in the program: the progress line, the two calls, and the error line
  of a failure. The assembler is a function of the day, its commits and their results alone.
\<close>

type_synonym summary_result = "jserror + ustring"

fun summarize_all :: "'x host \<Rightarrow> commit list \<Rightarrow> 'x state \<Rightarrow> summary_result list \<times> 'x state" where
  "summarize_all h [] st = ([], st)"
| "summarize_all h (c # cs) st =
     (let (r, st2) = summarize_commit h c (console_log (msg_processing c) st);
          st3 = (case r of Inl e \<Rightarrow> console_error (msg_commit_error c) (Some e) st2 | Inr s \<Rightarrow> st2);
          (rs, st4) = summarize_all h cs st3
      in (r # rs, st4))"

definition render_entry :: "nat \<Rightarrow> commit \<Rightarrow> summary_result \<Rightarrow> ustring" where
  "render_entry i c r = (case r of Inr s \<Rightarrow> ok_entry i c s | Inl e \<Rightarrow> error_entry i c e)"

fun render_entries :: "nat \<Rightarrow> commit list \<Rightarrow> summary_result list \<Rightarrow> ustring" where
  "render_entries i (c # cs) (r # rs) = render_entry i c r @ render_entries (i + 1) cs rs"
| "render_entries i cs rs = []"

definition assemble :: "ustring \<Rightarrow> commit list \<Rightarrow> summary_result list \<Rightarrow> ustring" where
  "assemble d cs rs = report_title d @ report_count (length cs) @ render_entries 0 cs rs"

text \<open>The state in which the commits of a day are gone through, and the results of that day.\<close>

definition day_start :: "ustring \<times> commit list \<Rightarrow> 'x state \<Rightarrow> 'x state" where
  "day_start b st = console_log (msg_day_header (fst b) (length (snd b))) st"

definition day_results :: "'x host \<Rightarrow> ustring \<times> commit list \<Rightarrow> 'x state \<Rightarrow> summary_result list" where
  "day_results h b st = fst (summarize_all h (snd b) (day_start b st))"

text \<open>The results of all days of a run; each day begins in the state the day before left.\<close>

fun run_results :: "'x host \<Rightarrow> answers \<Rightarrow> buckets \<Rightarrow> 'x state \<Rightarrow> summary_result list list" where
  "run_results h a [] st = []"
| "run_results h a (b # bs) st = day_results h b st # run_results h a bs (process_day h a b st)"

text \<open>The path of the report of a day, and the reports of a run from its buckets and results.\<close>

definition report_path :: "'x host \<Rightarrow> answers \<Rightarrow> ustring \<Rightarrow> ustring" where
  "report_path h a d = path_join h (gitPath a) (report_file_name d)"

definition reports :: "'x host \<Rightarrow> answers \<Rightarrow> buckets \<Rightarrow> summary_result list list \<Rightarrow> (ustring \<times> ustring) list" where
  "reports h a bs rss =
     map (\<lambda>(b, rs). (report_path h a (fst b), assemble (fst b) (snd b) rs)) (zip bs rss)"

text \<open>The writes of a trace, in order: path and data of each.\<close>

fun writes_of :: "event list \<Rightarrow> (ustring \<times> ustring) list" where
  "writes_of [] = []"
| "writes_of (WriteFile p d # es) = (p, d) # writes_of es"
| "writes_of (e # es) = writes_of es"

text \<open>The errors a trace prints, in order: the line and the error of each.\<close>

fun errors_of :: "event list \<Rightarrow> (ustring \<times> jserror) list" where
  "errors_of [] = []"
| "errors_of (ConsoleError m (Some e) # es) = (m, e) # errors_of es"
| "errors_of (ev # es) = errors_of es"

text \<open>Whether a text occurs inside another.\<close>

fun starts_with :: "ustring \<Rightarrow> ustring \<Rightarrow> bool" where
  "starts_with [] s = True"
| "starts_with (p # ps) [] = False"
| "starts_with (p # ps) (c # cs) = (p = c \<and> starts_with ps cs)"

fun contains :: "ustring \<Rightarrow> ustring \<Rightarrow> bool" where
  "contains p [] = (p = [])"
| "contains p (c # cs) = (starts_with p (c # cs) \<or> contains p cs)"

section \<open>Auxiliary notions for the proofs\<close>

text \<open>The leap flag of a year, the length of month \<open>m\<close> (0 to 11), and a date's day number.\<close>

definition leap_flag :: "int \<Rightarrow> int" where
  "leap_flag y = (if DaysInYear y = 366 then 1 else 0)"

definition month_length :: "int \<Rightarrow> int \<Rightarrow> int" where
  "month_length m l = (if m = 1 then 28 + l else if m = 3 \<or> m = 5 \<or> m = 8 \<or> m = 10 then 30 else 31)"

definition day_number :: "ymd \<Rightarrow> int" where
  "day_number s = MakeDay (int (yyyy s)) (int (mm s) - 1) (int (dd s))"

text \<open>A date that exists, whatever its year.\<close>

definition real_date :: "ymd \<Rightarrow> bool" where
  "real_date s \<longleftrightarrow> 1 \<le> mm s \<and> mm s \<le> 12 \<and> 1 \<le> dd s \<and> dd s \<le> days_in_month (yyyy s) (mm s)"

text \<open>The lines with which a run begins: the answers, repeated.\<close>

definition echo_lines :: "answers \<Rightarrow> event list" where
  "echo_lines a =
     [ConsoleLog msg_input_header, ConsoleLog (msg_path (gitPath a)),
      ConsoleLog (msg_start (ymd_text (startDate a))), ConsoleLog (msg_end (ymd_text (endDate a)))] @
     (if author a \<noteq> [] then [ConsoleLog (msg_author (author a))] else [])"

text \<open>The state in which the days of a run are gone through, after the log has answered.\<close>

definition run_start :: "answers \<Rightarrow> commit list \<Rightarrow> 'x \<Rightarrow> 'x state \<Rightarrow> 'x state" where
  "run_start a commits x st =
     st\<lparr>outside := x,
        trace := trace st @ echo_lines a @
           [ConsoleLog msg_searching, GitLog (logOptions a), ConsoleLog (msg_found (length commits))]\<rparr>"

section \<open>Facts about the calendar\<close>

lemma div_succ:
  fixes a k :: int
  assumes "0 < k"
  shows "(a + 1) div k = a div k + (if (a + 1) mod k = 0 then 1 else 0)"
proof -
  define q where "q = (a + 1) div k"
  define r where "r = (a + 1) mod k"
  have eq: "a + 1 = k * q + r" by (simp add: q_def r_def)
  have r: "0 \<le> r" "r < k" using assms by (simp_all add: r_def)
  show ?thesis
  proof (cases "r = 0")
    case True
    have "a = k * (q - 1) + (k - 1)" using eq True by (simp add: algebra_simps)
    then have "a div k = q - 1" using assms by (intro int_div_pos_eq [where r = "k - 1"]) auto
    with True show ?thesis by (simp add: q_def r_def)
  next
    case False
    have "a = k * q + (r - 1)" using eq by (simp add: algebra_simps)
    then have "a div k = q" using r False by (intro int_div_pos_eq [where r = "r - 1"]) auto
    with False show ?thesis by (simp add: q_def r_def)
  qed
qed

lemma mod_shift: "(y - k * c) mod k = y mod k" for y :: int
  by (simp add: mod_diff_right_eq [symmetric])

lemma mod_4_100: "y mod 100 = 0 \<Longrightarrow> y mod 4 = 0" for y :: int
proof -
  assume "y mod 100 = 0"
  then have "100 dvd y" by (simp add: dvd_eq_mod_eq_0)
  moreover have "(4::int) dvd 100" by simp
  ultimately have "4 dvd y" by (rule dvd_trans [rotated])
  then show ?thesis by (simp add: dvd_eq_mod_eq_0)
qed

lemma mod_100_400: "y mod 400 = 0 \<Longrightarrow> y mod 100 = 0" for y :: int
proof -
  assume "y mod 400 = 0"
  then have "400 dvd y" by (simp add: dvd_eq_mod_eq_0)
  moreover have "(100::int) dvd 400" by simp
  ultimately have "100 dvd y" by (rule dvd_trans [rotated])
  then show ?thesis by (simp add: dvd_eq_mod_eq_0)
qed

lemma step4: "(y - 1968) div 4 = (y - 1969) div 4 + (if y mod 4 = 0 then 1 else 0)" for y :: int
  using div_succ [of 4 "y - 1969"] mod_shift [of y 4 492] by simp

lemma step100: "(y - 1900) div 100 = (y - 1901) div 100 + (if y mod 100 = 0 then 1 else 0)" for y :: int
  using div_succ [of 100 "y - 1901"] mod_shift [of y 100 19] by simp

lemma step400: "(y - 1600) div 400 = (y - 1601) div 400 + (if y mod 400 = 0 then 1 else 0)" for y :: int
  using div_succ [of 400 "y - 1601"] mod_shift [of y 400 4] by simp

lemma DayFromYear_Suc: "DayFromYear (y + 1) = DayFromYear y + DaysInYear y"
proof -
  define A where "A = (y - 1969) div 4"
  define B where "B = (y - 1901) div 100"
  define C where "C = (y - 1601) div 400"
  define p4 where "p4 \<longleftrightarrow> y mod 4 = 0"
  define p100 where "p100 \<longleftrightarrow> y mod 100 = 0"
  define p400 where "p400 \<longleftrightarrow> y mod 400 = 0"
  have args: "y + 1 - 1970 = y - 1969" "y + 1 - 1969 = y - 1968"
    "y + 1 - 1901 = y - 1900" "y + 1 - 1601 = y - 1600" by simp_all
  have imp: "p100 \<longrightarrow> p4" "p400 \<longrightarrow> p100"
    using mod_4_100 [of y] mod_100_400 [of y] by (auto simp: p4_def p100_def p400_def)
  have l: "DayFromYear (y + 1) = 365 * (y - 1969) + (A + (if p4 then 1 else 0))
      - (B + (if p100 then 1 else 0)) + (C + (if p400 then 1 else 0))"
    unfolding DayFromYear_def args step4 step100 step400 A_def B_def C_def p4_def p100_def p400_def ..
  have r: "DayFromYear y = 365 * (y - 1970) + A - B + C"
    unfolding DayFromYear_def A_def B_def C_def ..
  have d: "DaysInYear y = (if \<not> p4 then 365 else if \<not> p100 then 366 else if \<not> p400 then 365 else 366)"
    unfolding DaysInYear_def p4_def p100_def p400_def ..
  show ?thesis unfolding l r d using imp by (cases p4; cases p100; cases p400) simp_all
qed

lemma DaysInYear_cases: "DaysInYear y = 365 \<or> DaysInYear y = 366"
  by (simp add: DaysInYear_def)

lemma DayFromYear_less_Suc: "DayFromYear y < DayFromYear (y + 1)"
  using DaysInYear_cases [of y] by (auto simp: DayFromYear_Suc)

lemma DayFromYear_mono_nat: "DayFromYear y \<le> DayFromYear (y + int n)"
proof (induction n)
  case 0
  show ?case by simp
next
  case (Suc n)
  have "DayFromYear (y + int n) < DayFromYear (y + int n + 1)"
    by (rule DayFromYear_less_Suc)
  moreover have "y + int (Suc n) = y + int n + 1" by simp
  ultimately show ?case using Suc by (simp only:) 
qed

lemma DayFromYear_mono: "y \<le> z \<Longrightarrow> DayFromYear y \<le> DayFromYear z"
  using DayFromYear_mono_nat [of y "nat (z - y)"] by simp

lemma DayFromYear_strict: "y < z \<Longrightarrow> DayFromYear y < DayFromYear z"
  using DayFromYear_mono [of "y + 1" z] DayFromYear_less_Suc [of y] by simp

lemma year_down_le: "DayFromYear (year_down d y) \<le> d"
proof (induction d y rule: year_down.induct)
  case (1 d y)
  show ?case
  proof (cases "d < DayFromYear y")
    case True
    with 1 show ?thesis by (subst year_down.simps) simp
  next
    case False
    then show ?thesis by (subst year_down.simps) simp
  qed
qed

lemma year_down_gt: "d < DayFromYear (y + 1) \<Longrightarrow> d < DayFromYear (year_down d y + 1)"
proof (induction d y rule: year_down.induct)
  case (1 d y)
  show ?case
  proof (cases "d < DayFromYear y")
    case True
    with 1 show ?thesis by (subst year_down.simps) simp
  next
    case False
    with 1 show ?thesis by (subst year_down.simps) simp
  qed
qed

lemma DayFromYear_1970: "DayFromYear 1970 = 0"
  by (simp add: DayFromYear_def)

lemma DayFromYear_after: "365 * int n \<le> DayFromYear (1970 + int n)"
proof (induction n)
  case 0
  show ?case by (simp add: DayFromYear_1970)
next
  case (Suc n)
  have "DayFromYear (1970 + int n + 1) = DayFromYear (1970 + int n) + DaysInYear (1970 + int n)"
    by (rule DayFromYear_Suc)
  moreover have "1970 + int (Suc n) = 1970 + int n + 1" by simp
  moreover have "365 * int (Suc n) = 365 * int n + 365" by simp
  ultimately show ?case using Suc DaysInYear_cases [of "1970 + int n"] by (simp only:) linarith
qed

lemma DayFromYear_before: "- 366 * int n \<le> DayFromYear (1970 - int n)"
proof (induction n)
  case 0
  show ?case by (simp add: DayFromYear_1970)
next
  case (Suc n)
  have "DayFromYear (1970 - int (Suc n) + 1) = DayFromYear (1970 - int (Suc n)) + DaysInYear (1970 - int (Suc n))"
    by (rule DayFromYear_Suc)
  moreover have "1970 - int (Suc n) + 1 = 1970 - int n" by simp
  moreover have "- 366 * int (Suc n) = - 366 * int n - 366" by simp
  ultimately show ?case using Suc DaysInYear_cases [of "1970 - int (Suc n)"] by (simp only:) linarith
qed

lemma year_start_gt: "d < DayFromYear (year_start d + 1)"
proof (cases "0 \<le> d")
  case True
  define n where "n = nat (d div 365 + 1)"
  from True have n: "int n = d div 365 + 1" by (simp add: n_def)
  have "d < 365 * (d div 365 + 1)" by simp
  also have "\<dots> \<le> DayFromYear (1970 + int n)" using DayFromYear_after [of n] n by simp
  finally show ?thesis using True n by (simp add: year_start_def add.assoc)
next
  case False
  define n where "n = nat (- (d div 366 + 1))"
  from False have n: "int n = - (d div 366 + 1)" by (simp add: n_def)
  have "d < 366 * (d div 366 + 1)" by simp
  also have "\<dots> \<le> DayFromYear (1970 - int n)" using DayFromYear_before [of n] n by simp
  finally show ?thesis using False n by (simp add: year_start_def add.assoc)
qed

lemma YearFromTime_bounds:
  "DayFromYear (YearFromTime t) \<le> Day t \<and> Day t < DayFromYear (YearFromTime t + 1)"
  unfolding YearFromTime_def using year_down_le year_down_gt [OF year_start_gt] by blast

lemma YearFromTime_unique:
  assumes "DayFromYear y \<le> Day t" and "Day t < DayFromYear (y + 1)"
  shows "YearFromTime t = y"
proof (rule ccontr)
  assume neq: "YearFromTime t \<noteq> y"
  let ?z = "YearFromTime t"
  from neq consider "?z < y" | "y < ?z" by linarith
  then show False
  proof cases
    case 1
    then have "DayFromYear (?z + 1) \<le> DayFromYear y" by (intro DayFromYear_mono) simp
    with YearFromTime_bounds [of t] assms show False by linarith
  next
    case 2
    then have "DayFromYear (y + 1) \<le> DayFromYear ?z" by (intro DayFromYear_mono) simp
    with YearFromTime_bounds [of t] assms show False by linarith
  qed
qed

lemma Day_MakeDate: "0 \<le> tw \<Longrightarrow> tw < msPerDay \<Longrightarrow> Day (MakeDate d tw) = d"
  by (simp add: Day_def MakeDate_def msPerDay_def div_pos_pos_trivial)

lemma TimeWithinDay_MakeDate: "0 \<le> tw \<Longrightarrow> tw < msPerDay \<Longrightarrow> TimeWithinDay (MakeDate d tw) = tw"
  by (simp add: TimeWithinDay_def MakeDate_def msPerDay_def mod_pos_pos_trivial)

lemma month_cases:
  fixes m :: int
  assumes "0 \<le> m" "m \<le> 11"
  obtains "m = 0" | "m = 1" | "m = 2" | "m = 3" | "m = 4" | "m = 5" | "m = 6" | "m = 7"
    | "m = 8" | "m = 9" | "m = 10" | "m = 11"
proof -
  from assms have "m = 0 \<or> m = 1 \<or> m = 2 \<or> m = 3 \<or> m = 4 \<or> m = 5 \<or> m = 6 \<or> m = 7
      \<or> m = 8 \<or> m = 9 \<or> m = 10 \<or> m = 11" by presburger
  then show thesis using that by blast
qed

lemma leap_flag_cases: "leap_flag y = 0 \<or> leap_flag y = 1"
  by (simp add: leap_flag_def)

lemma DayFromYear_next: "DayFromYear (y + 1) = DayFromYear y + 365 + leap_flag y"
  using DaysInYear_cases [of y] by (auto simp: DayFromYear_Suc leap_flag_def)

lemma yday_bounds:
  assumes "0 \<le> m" "m \<le> 11" "1 \<le> d" "d \<le> month_length m l" "l = 0 \<or> l = 1"
  shows "0 \<le> month_start m l + d - 1 \<and> month_start m l + d - 1 < 365 + l"
  using assms(1,2)
proof (cases m rule: month_cases)
qed (use assms(3-5) in \<open>auto simp: month_start_def month_length_def\<close>)

lemma MakeDay_in_year:
  assumes "0 \<le> m" "m \<le> 11"
  shows "MakeDay y m d = DayFromYear y + month_start m (leap_flag y) + d - 1"
  using assms by (simp add: MakeDay_def leap_flag_def div_pos_pos_trivial mod_pos_pos_trivial)

lemma Month_Date_of_yday:
  assumes "0 \<le> m" "m \<le> 11" "1 \<le> d" "d \<le> month_length m l" "l = 0 \<or> l = 1"
    and "DayWithinYear t = month_start m l + d - 1" and "InLeapYear t = l"
  shows "MonthFromTime t = m \<and> DateFromTime t = d"
  using assms(1,2)
proof (cases m rule: month_cases)
qed (use assms(3-7) in \<open>auto simp: MonthFromTime_def DateFromTime_def month_start_def month_length_def\<close>)

lemma decode_MakeDay:
  assumes m: "0 \<le> m" "m \<le> 11" and d: "1 \<le> d" "d \<le> month_length m (leap_flag y)"
    and tw: "0 \<le> tw" "tw < msPerDay"
  defines "t \<equiv> MakeDate (MakeDay y m d) tw"
  shows "YearFromTime t = y" and "MonthFromTime t = m" and "DateFromTime t = d"
    and "TimeWithinDay t = tw"
proof -
  have day: "Day t = DayFromYear y + month_start m (leap_flag y) + d - 1"
    using tw m by (simp add: t_def Day_MakeDate MakeDay_in_year)
  from yday_bounds [OF m d leap_flag_cases]
  have b: "0 \<le> month_start m (leap_flag y) + d - 1"
    "month_start m (leap_flag y) + d - 1 < 365 + leap_flag y" by simp_all
  have "DayFromYear y \<le> Day t" using day b by linarith
  moreover have "Day t < DayFromYear (y + 1)" using day b by (simp add: DayFromYear_next)
  ultimately show y: "YearFromTime t = y" by (rule YearFromTime_unique)
  have dwy: "DayWithinYear t = month_start m (leap_flag y) + d - 1"
    by (simp add: DayWithinYear_def y day)
  have il: "InLeapYear t = leap_flag y" by (simp add: InLeapYear_def y leap_flag_def)
  from Month_Date_of_yday [OF m d leap_flag_cases dwy il]
  show "MonthFromTime t = m" and "DateFromTime t = d" by simp_all
  show "TimeWithinDay t = tw" using tw by (simp add: t_def TimeWithinDay_MakeDate)
qed

section \<open>Facts about \<^verbatim>\<open>trim\<close>\<close>

lemma trim_last: "trim s \<noteq> [] \<Longrightarrow> \<not> is_space (last (trim s))"
proof -
  assume ne: "trim s \<noteq> []"
  let ?xs = "dropWhile is_space (rev (dropWhile is_space s))"
  from ne have xs: "?xs \<noteq> []" by (simp add: trim_def)
  then have "\<not> is_space (hd ?xs)" by (rule hd_dropWhile)
  moreover have "last (trim s) = hd ?xs" using xs by (simp add: trim_def last_rev)
  ultimately show ?thesis by simp
qed

lemma trim_hd: "trim s \<noteq> [] \<Longrightarrow> \<not> is_space (hd (trim s))"
proof -
  assume ne: "trim s \<noteq> []"
  let ?u = "dropWhile is_space s"
  have "rev (rev ?u) = rev (takeWhile is_space (rev ?u) @ dropWhile is_space (rev ?u))"
    by (simp only: takeWhile_dropWhile_id)
  then have u: "?u = trim s @ rev (takeWhile is_space (rev ?u))"
    by (simp only: rev_rev_ident rev_append trim_def)
  with ne have "hd ?u = hd (trim s)" by (metis hd_append2)
  moreover from u ne have "?u \<noteq> []" by (metis append_is_Nil_conv)
  then have "\<not> is_space (hd ?u)" by (rule hd_dropWhile)
  ultimately show ?thesis by simp
qed

lemma dropWhile_hd_id: "xs \<noteq> [] \<Longrightarrow> \<not> P (hd xs) \<Longrightarrow> dropWhile P xs = xs"
  by (cases xs) auto

lemma trim_idem: "trim (trim s) = trim s"
proof (cases "trim s = []")
  case True
  have "trim [] = []" by (simp add: trim_def)
  with True show ?thesis by simp
next
  case False
  have a: "dropWhile is_space (trim s) = trim s"
    using False trim_hd by (intro dropWhile_hd_id) auto
  have "hd (rev (trim s)) = last (trim s)" using False by (simp add: hd_rev)
  then have b: "dropWhile is_space (rev (trim s)) = rev (trim s)"
    using False trim_last [of s] by (intro dropWhile_hd_id) auto
  show ?thesis
    by (subst (1) trim_def) (simp only: a b rev_rev_ident)
qed

lemma not_blank: "xs \<noteq> [] \<Longrightarrow> \<not> is_space (hd xs) \<Longrightarrow> \<not> list_all is_space xs"
  by (cases xs) auto

lemma completion_text_trimmed: "completion_text c = Some t \<Longrightarrow> trim t = t"
  by (auto simp: completion_text_def trim_idem split: option.splits list.splits)

section \<open>Dates of the window\<close>

lemma leap_flag_int: "leap_flag (int y) = (if leap_year y then 1 else 0)"
proof -
  have a: "int y mod 4 = int (y mod 4)" "int y mod 100 = int (y mod 100)"
    "int y mod 400 = int (y mod 400)" by (simp_all add: zmod_int)
  show ?thesis
    unfolding leap_flag_def DaysInYear_def leap_year_def a
    using mod_4_100 [of "int y"] a by auto
qed

lemma month_length_int:
  "1 \<le> m \<Longrightarrow> m \<le> 12 \<Longrightarrow> month_length (int m - 1) (leap_flag (int y)) = int (days_in_month y m)"
  by (auto simp: month_length_def days_in_month_def leap_flag_int)

lemma DayFromYear_0: "DayFromYear 0 = - 719528"
  by (simp add: DayFromYear_def)

lemma DayFromYear_10001: "DayFromYear 10001 = 2933263"
  by (simp add: DayFromYear_def)

lemma DayFromYear_range:
  assumes "0 \<le> y" "y \<le> 10001"
  shows "- 719528 \<le> DayFromYear y \<and> DayFromYear y \<le> 2933263"
  using DayFromYear_mono [OF assms(1)] DayFromYear_mono [OF assms(2)]
  by (simp add: DayFromYear_0 DayFromYear_10001)

lemma month_start_range: "l = 0 \<or> l = 1 \<Longrightarrow> 0 \<le> month_start m l \<and> month_start m l \<le> 335"
  by (auto simp: month_start_def)

lemma MakeDay_range:
  assumes "0 \<le> y" "y \<le> 9999" "0 \<le> m" "m \<le> 13" "0 \<le> d" "d \<le> 31"
  shows "\<bar>MakeDay y m d\<bar> \<le> 3000000"
proof -
  have ym: "0 \<le> y + m div 12" "y + m div 12 \<le> 10001"
    using assms by simp_all
  let ?l = "if DaysInYear (y + m div 12) = 366 then 1 else 0 :: int"
  have l: "?l = 0 \<or> ?l = 1" by simp
  from month_start_range [OF l, of "m mod 12"] DayFromYear_range [OF ym] assms(5,6)
  show ?thesis unfolding MakeDay_def Let_def by linarith
qed

lemma TimeClip_MakeDate:
  assumes "\<bar>n\<bar> \<le> 3000000"
  shows "TimeClip (MakeDate n 0) = Some (n * msPerDay)"
  using assms by (simp add: TimeClip_def MakeDate_def msPerDay_def)

lemma calendar_date_real: "calendar_date s \<longleftrightarrow> yyyy s \<le> 9999 \<and> real_date s"
  by (auto simp: calendar_date_def real_date_def)

lemma days_in_month_le: "days_in_month y m \<le> 31"
  by (simp add: days_in_month_def)

lemma day_number_in_year:
  assumes "real_date s"
  shows "day_number s =
    DayFromYear (int (yyyy s)) + month_start (int (mm s) - 1) (leap_flag (int (yyyy s))) + int (dd s) - 1"
  using assms unfolding day_number_def real_date_def
  by (intro MakeDay_in_year) auto

lemma Date_of_ymd_calendar:
  assumes "calendar_date s"
  shows "Date_of_ymd s = Some (day_number s * msPerDay)"
proof -
  from assms have v: "1 \<le> mm s" "mm s \<le> 12" "1 \<le> dd s" "dd s \<le> 31" "yyyy s \<le> 9999"
    using days_in_month_le [of "yyyy s" "mm s"] by (auto simp: calendar_date_def)
  then have "\<bar>day_number s\<bar> \<le> 3000000"
    unfolding day_number_def by (intro MakeDay_range) auto
  from TimeClip_MakeDate [OF this] v show ?thesis
    by (simp add: Date_of_ymd_def day_number_def)
qed

lemma two_months_later_calendar:
  assumes c: "calendar_date s" and z: "0 \<le> z" "z < msPerDay"
  shows "setMonth z (Date_of_ymd s) (map_option (\<lambda>m. m + 2) (getMonth z (Date_of_ymd s))) =
    Some (MakeDay (int (yyyy s)) (int (mm s) + 1) (int (dd s)) * msPerDay)"
proof -
  let ?y = "int (yyyy s)" and ?m = "int (mm s) - 1" and ?d = "int (dd s)"
  from c have v: "1 \<le> mm s" "mm s \<le> 12" "1 \<le> dd s" "dd s \<le> days_in_month (yyyy s) (mm s)"
    "yyyy s \<le> 9999" by (auto simp: calendar_date_def)
  have m: "0 \<le> ?m" "?m \<le> 11" using v by auto
  have d: "1 \<le> ?d" "?d \<le> month_length ?m (leap_flag ?y)"
    using v by (simp_all add: month_length_int)
  have lt: "LocalTime z (day_number s * msPerDay) = MakeDate (MakeDay ?y ?m ?d) z"
    by (simp add: LocalTime_def MakeDate_def day_number_def)
  note dec = decode_MakeDay [OF m d z]
  have d31: "dd s \<le> 31" using v(4) days_in_month_le [of "yyyy s" "mm s"] by linarith
  have "\<bar>MakeDay ?y (?m + 2) ?d\<bar> \<le> 3000000"
    using v d31 by (intro MakeDay_range) auto
  from TimeClip_MakeDate [OF this]
  have clip: "TimeClip (MakeDay ?y (?m + 2) ?d * msPerDay) = Some (MakeDay ?y (?m + 2) ?d * msPerDay)"
    by (simp add: MakeDate_def)
  have gm: "getMonth z (Some (day_number s * msPerDay)) = Some ?m"
    by (simp add: getMonth_def lt dec)
  have sm: "setMonth z (Some (day_number s * msPerDay)) (Some (?m + 2)) =
      TimeClip (UTC z (MakeDate (MakeDay ?y (?m + 2) ?d) z))"
    by (simp add: setMonth_def lt dec Let_def)
  have utc: "UTC z (MakeDate n z) = n * msPerDay" for n
    by (simp add: UTC_def MakeDate_def)
  have eq: "?m + 2 = int (mm s) + 1" by simp
  have "setMonth z (Date_of_ymd s) (map_option (\<lambda>m. m + 2) (getMonth z (Date_of_ymd s))) =
      setMonth z (Some (day_number s * msPerDay)) (Some (?m + 2))"
    by (simp only: Date_of_ymd_calendar [OF c] gm option.map)
  also have "\<dots> = TimeClip (MakeDay ?y (?m + 2) ?d * msPerDay)"
    by (simp only: sm utc)
  also have "\<dots> = Some (MakeDay ?y (?m + 2) ?d * msPerDay)"
    by (rule clip)
  finally show ?thesis by (simp only: eq)
qed

lemma month_start_Suc:
  assumes "0 \<le> m" "m \<le> 10"
  shows "month_start (m + 1) l = month_start m l + month_length m l"
proof -
  from assms have "0 \<le> m" "m \<le> 11" by simp_all
  then show ?thesis
  proof (cases m rule: month_cases)
  qed (use assms in \<open>auto simp: month_start_def month_length_def\<close>)
qed

lemma month_length_pos: "l = 0 \<or> l = 1 \<Longrightarrow> 28 \<le> month_length m l"
  by (auto simp: month_length_def)

lemma month_start_mono_nat:
  assumes "0 \<le> m" "m + int n \<le> 11" "l = 0 \<or> l = 1"
  shows "month_start m l \<le> month_start (m + int n) l"
  using assms(2)
proof (induction n)
  case 0
  show ?case by simp
next
  case (Suc n)
  have le: "m + int n \<le> 10" using Suc.prems by simp
  have "month_start (m + int n + 1) l = month_start (m + int n) l + month_length (m + int n) l"
    using assms(1) le by (intro month_start_Suc) simp_all
  moreover have "month_start m l \<le> month_start (m + int n) l" using Suc.IH le by simp
  ultimately have "month_start m l \<le> month_start (m + int n + 1) l"
    using month_length_pos [OF assms(3), of "m + int n"] by linarith
  moreover have "m + int (Suc n) = m + int n + 1" by simp
  ultimately show ?case by (simp only:)
qed

lemma month_start_less:
  assumes "0 \<le> m" "m < m'" "m' \<le> 11" "l = 0 \<or> l = 1" "d \<le> month_length m l"
  shows "month_start m l + d - 1 < month_start m' l"
proof -
  have "month_start (m + 1) l = month_start m l + month_length m l"
    using assms by (intro month_start_Suc) simp_all
  moreover have "month_start (m + 1) l \<le> month_start (m + 1 + int (nat (m' - (m + 1)))) l"
    using assms by (intro month_start_mono_nat) simp_all
  moreover have "m + 1 + int (nat (m' - (m + 1))) = m'" using assms by simp
  ultimately have "month_start m l + month_length m l \<le> month_start m' l" by (simp only:)
  then show ?thesis using assms(5) by linarith
qed

lemma day_number_mono:
  assumes a: "real_date a" and b: "real_date b" and lt: "date_before a b"
  shows "day_number a < day_number b"
proof -
  let ?ya = "int (yyyy a)" and ?yb = "int (yyyy b)"
  let ?ma = "int (mm a) - 1" and ?mb = "int (mm b) - 1"
  from a have va: "0 \<le> ?ma" "?ma \<le> 11" "1 \<le> int (dd a)"
    "int (dd a) \<le> month_length ?ma (leap_flag ?ya)"
    by (auto simp: real_date_def month_length_int)
  from b have vb: "0 \<le> ?mb" "?mb \<le> 11" "1 \<le> int (dd b)"
    "int (dd b) \<le> month_length ?mb (leap_flag ?yb)"
    by (auto simp: real_date_def month_length_int)
  note ba = yday_bounds [OF va leap_flag_cases]
  note bb = yday_bounds [OF vb leap_flag_cases]
  note na = day_number_in_year [OF a]
  note nb = day_number_in_year [OF b]
  from lt consider "yyyy a < yyyy b" | "yyyy a = yyyy b" "mm a < mm b"
    | "yyyy a = yyyy b" "mm a = mm b" "dd a < dd b"
    by (auto simp: date_before_def)
  then show ?thesis
  proof cases
    case 1
    then have "DayFromYear (?ya + 1) \<le> DayFromYear ?yb" by (intro DayFromYear_mono) simp
    then show ?thesis using ba bb na nb by (simp only: DayFromYear_next) linarith
  next
    case 2
    have "month_start ?ma (leap_flag ?ya) + int (dd a) - 1 < month_start ?mb (leap_flag ?ya)"
      using va vb 2 by (intro month_start_less leap_flag_cases) simp_all
    then show ?thesis using na [unfolded 2(1)] nb vb(3) unfolding 2(1) by linarith
  next
    case 3
    then show ?thesis using na nb by simp
  qed
qed

lemma day_number_iso:
  assumes a: "real_date a" and b: "real_date b"
  shows "date_before a b \<longleftrightarrow> day_number a < day_number b"
proof
  assume "date_before a b"
  then show "day_number a < day_number b" by (rule day_number_mono [OF a b])
next
  assume lt: "day_number a < day_number b"
  show "date_before a b"
  proof (rule ccontr)
    assume n: "\<not> date_before a b"
    then have "date_before b a \<or> (yyyy a = yyyy b \<and> mm a = mm b \<and> dd a = dd b)"
      unfolding date_before_def by linarith
    then consider "date_before b a" | "yyyy a = yyyy b" "mm a = mm b" "dd a = dd b"
      by blast
    then show False
    proof cases
      case 1
      from day_number_mono [OF b a 1] lt show False by simp
    next
      case 2
      then have "day_number a = day_number b" by (simp add: day_number_def)
      with lt show False by simp
    qed
  qed
qed

lemma MakeDay_carry:
  assumes "12 \<le> m" "m \<le> 23"
  shows "MakeDay y m d = MakeDay (y + 1) (m - 12) d"
proof -
  have b1: "(m - 12) div 12 = 0" using assms by (intro div_pos_pos_trivial) simp_all
  have b2: "(m - 12) mod 12 = m - 12" using assms by (intro mod_pos_pos_trivial) simp_all
  have "(m - 12 + 12) div 12 = (m - 12) div 12 + 1" by (rule div_add_self2) simp
  with b1 have a1: "m div 12 = 1" by simp
  have "(m - 12 + 12) mod 12 = (m - 12) mod 12" by (rule mod_add_self2)
  with b2 have a2: "m mod 12 = m - 12" by simp
  show ?thesis unfolding MakeDay_def a1 a2 b1 b2 by simp
qed

lemma two_months_on_MakeDay:
  assumes "1 \<le> mm s" "mm s \<le> 12" and t: "two_months_on s = (y, m)"
  shows "MakeDay (int (yyyy s)) (int (mm s) + 1) d = MakeDay (int y) (int m - 1) d"
    and "1 \<le> m" and "m \<le> 12"
proof -
  show "MakeDay (int (yyyy s)) (int (mm s) + 1) d = MakeDay (int y) (int m - 1) d"
  proof (cases "mm s + 2 > 12")
    case True
    with t have ym: "y = yyyy s + 1" "m = mm s + 2 - 12" by (simp_all add: two_months_on_def)
    have "MakeDay (int (yyyy s)) (int (mm s) + 1) d = MakeDay (int (yyyy s) + 1) (int (mm s) + 1 - 12) d"
      using True assms by (intro MakeDay_carry) simp_all
    moreover have "int y = int (yyyy s) + 1" "int m - 1 = int (mm s) + 1 - 12"
      using True ym by simp_all
    ultimately show ?thesis by (simp only:)
  next
    case False
    with t have ym: "y = yyyy s" "m = mm s + 2" by (simp_all add: two_months_on_def)
    then have "int m - 1 = int (mm s) + 1" by simp
    with ym show ?thesis by (simp only:)
  qed
  show "1 \<le> m" using t assms by (auto simp: two_months_on_def split: if_splits)
  show "m \<le> 12" using t assms by (auto simp: two_months_on_def split: if_splits)
qed

lemma short_month: "days_in_month y m < 31 \<Longrightarrow> m = 2 \<or> m = 4 \<or> m = 6 \<or> m = 9 \<or> m = 11"
  by (auto simp: days_in_month_def split: if_splits)

lemma days_in_month_ge: "28 \<le> days_in_month y m"
  by (simp add: days_in_month_def)

lemma after_short_month:
  "m = 2 \<or> m = 4 \<or> m = 6 \<or> m = 9 \<or> m = 11 \<Longrightarrow> days_in_month y (m + 1) = 31"
  by (auto simp: days_in_month_def)

lemma rollover_day_number:
  assumes r: "real_date s"
  shows "real_date (add_two_months_rollover s)"
    and "day_number (add_two_months_rollover s) = MakeDay (int (yyyy s)) (int (mm s) + 1) (int (dd s))"
proof -
  obtain y m where t: "two_months_on s = (y, m)" by (cases "two_months_on s")
  from r have v: "1 \<le> mm s" "mm s \<le> 12" "1 \<le> dd s" "dd s \<le> 31"
    using days_in_month_le [of "yyyy s" "mm s"] by (auto simp: real_date_def)
  note tm = two_months_on_MakeDay [OF v(1,2) t]
  show "real_date (add_two_months_rollover s)"
    and "day_number (add_two_months_rollover s) = MakeDay (int (yyyy s)) (int (mm s) + 1) (int (dd s))"
  proof (atomize (full), cases "dd s \<le> days_in_month y m")
    case True
    then have eq: "add_two_months_rollover s = \<lparr>yyyy = y, mm = m, dd = dd s\<rparr>"
      by (simp add: add_two_months_rollover_def t)
    show "real_date (add_two_months_rollover s) \<and>
      day_number (add_two_months_rollover s) = MakeDay (int (yyyy s)) (int (mm s) + 1) (int (dd s))"
      using True v tm by (simp add: eq real_date_def day_number_def)
  next
    case False
    then have eq: "add_two_months_rollover s = \<lparr>yyyy = y, mm = m + 1, dd = dd s - days_in_month y m\<rparr>"
      by (simp add: add_two_months_rollover_def t)
    from False v have "days_in_month y m < 31" by simp
    from short_month [OF this] have sm: "m = 2 \<or> m = 4 \<or> m = 6 \<or> m = 9 \<or> m = 11" .
    then have m11: "m \<le> 11" by auto
    have real: "real_date (add_two_months_rollover s)"
      using False v days_in_month_ge [of y m] after_short_month [OF sm, of y] tm(2) m11
      by (simp add: eq real_date_def) linarith
    have mi: "0 \<le> int m - 1" "int m - 1 \<le> 10" using tm(2) m11 by simp_all
    have ms: "month_start (int m) (leap_flag (int y)) =
        month_start (int m - 1) (leap_flag (int y)) + int (days_in_month y m)"
      using month_start_Suc [OF mi, of "leap_flag (int y)"] tm(2,3)
      by (simp add: month_length_int)
    have "day_number (add_two_months_rollover s) =
        DayFromYear (int y) + month_start (int m) (leap_flag (int y)) + int (dd s - days_in_month y m) - 1"
      using day_number_in_year [OF real] by (simp add: eq)
    also have "\<dots> = DayFromYear (int y) + month_start (int m - 1) (leap_flag (int y)) + int (dd s) - 1"
      using False by (simp add: ms)
    also have "\<dots> = MakeDay (int y) (int m - 1) (int (dd s))"
      using mi by (simp add: MakeDay_in_year)
    finally show "real_date (add_two_months_rollover s) \<and>
      day_number (add_two_months_rollover s) = MakeDay (int (yyyy s)) (int (mm s) + 1) (int (dd s))"
      using real tm(1) by simp
  qed
qed

lemma echo_answers_eq: "echo_answers a st = st\<lparr>trace := trace st @ echo_lines a\<rparr>"
  by (simp add: echo_answers_def echo_lines_def console_log_def emit_def)

lemma msPerDay_pos: "0 < msPerDay"
  by (simp add: msPerDay_def)

lemma window_check_calendar:
  assumes s: "calendar_date s" and e: "calendar_date e" and z: "0 \<le> z" "z < msPerDay"
  shows "window_check z s e =
    (if date_before e s then Some msg_invalid_range
     else if date_before (add_two_months_rollover s) e then Some msg_range_too_large
     else None)"
proof -
  from s e have rs: "real_date s" and re: "real_date e" by (simp_all add: calendar_date_real)
  note ro = rollover_day_number [OF rs]
  have gt: "date_gt (Some (x * msPerDay)) (Some (y * msPerDay)) \<longleftrightarrow> y < x" for x y
    using msPerDay_pos by (simp add: date_gt_def)
  have cap: "setMonth z (Date_of_ymd s) (map_option (\<lambda>m. m + 2) (getMonth z (Date_of_ymd s))) =
      Some (day_number (add_two_months_rollover s) * msPerDay)"
    by (simp only: two_months_later_calendar [OF s z] ro(2))
  show ?thesis
    unfolding window_check_def Let_def cap
    by (simp only: Date_of_ymd_calendar [OF s] Date_of_ymd_calendar [OF e] gt
          day_number_iso [OF re rs] day_number_iso [OF ro(1) re])
qed

lemma window_check_invalid:
  assumes s: "calendar_date s" and e: "calendar_date e" and b: "date_before e s"
  shows "window_check z s e = Some msg_invalid_range"
proof -
  from s e have rs: "real_date s" and re: "real_date e" by (simp_all add: calendar_date_real)
  have "date_gt (Date_of_ymd s) (Date_of_ymd e)"
    using day_number_mono [OF re rs b] msPerDay_pos
    by (simp add: Date_of_ymd_calendar [OF s] Date_of_ymd_calendar [OF e] date_gt_def)
  then show ?thesis by (simp add: window_check_def)
qed

lemma messages_differ: "msg_invalid_range \<noteq> msg_range_too_large"
  by (simp add: msg_invalid_range_def msg_range_too_large_def)

lemma main_window_stop:
  assumes "window_check (tza h) (startDate a) (endDate a) = Some msg"
  shows "main h a st = st\<lparr>trace := trace st @ echo_lines a @ [ConsoleError msg None]\<rparr>"
  using assms by (simp add: main_def echo_answers_eq console_error_def emit_def)

lemma day_number_before_cap:
  assumes r: "real_date s"
  shows "day_number s < MakeDay (int (yyyy s)) (int (mm s) + 1) (int (dd s))"
proof -
  let ?y = "int (yyyy s)" and ?m = "int (mm s) - 1" and ?d = "int (dd s)"
  from r have v: "0 \<le> ?m" "?m \<le> 11" "1 \<le> ?d" "?d \<le> month_length ?m (leap_flag ?y)"
    by (auto simp: real_date_def month_length_int)
  note b = yday_bounds [OF v leap_flag_cases]
  note n = day_number_in_year [OF r]
  show ?thesis
  proof (cases "?m + 2 \<le> 11")
    case True
    have "month_start ?m (leap_flag ?y) + ?d - 1 < month_start (?m + 2) (leap_flag ?y)"
      using v True by (intro month_start_less leap_flag_cases) simp_all
    moreover have "MakeDay ?y (?m + 2) ?d =
        DayFromYear ?y + month_start (?m + 2) (leap_flag ?y) + ?d - 1"
      using v True by (intro MakeDay_in_year) simp_all
    ultimately have "day_number s < MakeDay ?y (?m + 2) ?d" using n v(3) by linarith
    moreover have "?m + 2 = int (mm s) + 1" by simp
    ultimately show ?thesis by (simp only:)
  next
    case False
    then have c: "12 \<le> ?m + 2" "?m + 2 \<le> 23" using v by simp_all
    have m': "0 \<le> ?m + 2 - 12" "?m + 2 - 12 \<le> 11" using c by simp_all
    have "MakeDay ?y (?m + 2) ?d = MakeDay (?y + 1) (?m + 2 - 12) ?d"
      using c by (rule MakeDay_carry)
    also have "\<dots> = DayFromYear (?y + 1) + month_start (?m + 2 - 12) (leap_flag (?y + 1)) + ?d - 1"
      using m' by (rule MakeDay_in_year)
    finally have cap: "MakeDay ?y (?m + 2) ?d =
        DayFromYear (?y + 1) + month_start (?m + 2 - 12) (leap_flag (?y + 1)) + ?d - 1" .
    have "0 \<le> month_start (?m + 2 - 12) (leap_flag (?y + 1))"
      using month_start_range [OF leap_flag_cases] by simp
    then have "day_number s < MakeDay ?y (?m + 2) ?d"
      using n b cap v(3) DayFromYear_next [of ?y] by linarith
    moreover have "?m + 2 = int (mm s) + 1" by simp
    ultimately show ?thesis by (simp only:)
  qed
qed

lemma sample_window: "window_check 0 (startDate sample_answers) (endDate sample_answers) = None"
proof -
  have c: "calendar_date (startDate sample_answers)" "calendar_date (endDate sample_answers)"
    by (simp_all add: sample_answers_def calendar_date_def days_in_month_def)
  have z: "(0::int) \<le> 0" "0 < msPerDay" by (simp_all add: msPerDay_def)
  show ?thesis
    unfolding window_check_calendar [OF c z]
    by (simp add: sample_answers_def date_before_def add_two_months_rollover_def two_months_on_def
        days_in_month_def leap_year_def)
qed

section \<open>Facts about grouping\<close>

lemma push_commit_keys:
  "map fst (push_commit bs k c) = (if k \<in> fst ` set bs then map fst bs else map fst bs @ [k])"
  by (induction bs k c rule: push_commit.induct) (auto split: if_splits)

lemma push_commit_distinct:
  "distinct (map fst bs) \<Longrightarrow> distinct (map fst (push_commit bs k c))"
  by (simp add: push_commit_keys)

lemma push_commit_sizes:
  "(\<Sum>b\<leftarrow>push_commit bs k c. length (snd b)) = Suc (\<Sum>b\<leftarrow>bs. length (snd b))"
  by (induction bs k c rule: push_commit.induct) auto

lemma push_commit_mset:
  "mset (concat (map snd (push_commit bs k c))) = add_mset c (mset (concat (map snd bs)))"
  by (induction bs k c rule: push_commit.induct) auto

lemma push_commit_nonempty:
  "list_all (\<lambda>b. snd b \<noteq> []) bs \<Longrightarrow> list_all (\<lambda>b. snd b \<noteq> []) (push_commit bs k c)"
  by (induction bs k c rule: push_commit.induct) auto

lemma first_appearances_Nil: "first_appearances [] = []"
  by (simp add: first_appearances_def)

lemma first_appearances_snoc:
  "first_appearances (xs @ [x]) =
     (if x \<in> set xs then first_appearances xs else first_appearances xs @ [x])"
  by (simp add: first_appearances_def)

lemma first_appearances_set: "set (first_appearances xs) = set xs"
  by (simp add: first_appearances_def)

lemma first_appearances_distinct: "distinct (first_appearances xs)"
  by (simp add: first_appearances_def)

lemma first_appearances_Cons:
  "first_appearances (x # xs) = x # filter (\<lambda>y. y \<noteq> x) (first_appearances xs)"
proof (induction xs rule: rev_induct)
  case Nil
  show ?case by (simp add: first_appearances_def)
next
  case (snoc y ys)
  have "first_appearances (x # ys @ [y]) = first_appearances ((x # ys) @ [y])" by simp
  also have "\<dots> = (if y \<in> set (x # ys) then first_appearances (x # ys)
      else first_appearances (x # ys) @ [y])"
    by (rule first_appearances_snoc)
  finally show ?case using snoc.IH
    by (auto simp: first_appearances_snoc)
qed

lemma group_commits_append:
  "group_commits (xs @ ys) bs =
     (case group_commits xs bs of Inl e \<Rightarrow> Inl e | Inr bs' \<Rightarrow> group_commits ys bs')"
  by (induction xs arbitrary: bs) (auto split: sum.splits)

lemma push_commit_map:
  assumes "distinct K"
  shows "push_commit (map (\<lambda>k'. (k', f k')) K) k c =
    (if k \<in> set K then map (\<lambda>k'. (k', if k' = k then f k' @ [c] else f k')) K
     else map (\<lambda>k'. (k', f k')) K @ [(k, [c])])"
  using assms by (induction K) auto

lemma group_commits_day_buckets:
  assumes "map commit_day cs = map Inr ks"
  shows "group_commits cs [] = Inr (day_buckets ks cs)"
  using assms
proof (induction cs arbitrary: ks rule: rev_induct)
  case Nil
  then show ?case by (simp add: day_buckets_def first_appearances_Nil)
next
  case (snoc c cs)
  from snoc.prems obtain ks' k where ks: "ks = ks' @ [k]"
    and m: "map commit_day cs = map Inr ks'" and ck: "commit_day c = Inr k"
    by (cases ks rule: rev_cases) auto
  note IH = snoc.IH [OF m]
  have keys: "\<And>x. x \<in> set cs \<Longrightarrow> \<exists>k' \<in> set ks'. commit_day x = Inr k'"
  proof -
    fix x assume "x \<in> set cs"
    then have "commit_day x \<in> set (map commit_day cs)" by simp
    then show "\<exists>k' \<in> set ks'. commit_day x = Inr k'" unfolding m by auto
  qed
  have new: "k \<notin> set ks' \<Longrightarrow> filter (\<lambda>c. commit_day c = Inr k) cs = []"
    using keys by (fastforce simp: filter_empty_conv)
  have "group_commits (cs @ [c]) [] = Inr (push_commit (day_buckets ks' cs) k c)"
    by (simp add: group_commits_append IH ck)
  also have "push_commit (day_buckets ks' cs) k c = day_buckets ks (cs @ [c])"
    unfolding day_buckets_def
    by (subst push_commit_map [OF first_appearances_distinct])
       (auto simp: ks first_appearances_snoc first_appearances_set ck new)
  finally show ?case .
qed

lemma group_commits_Cons:
  assumes "group_commits (c # cs) bs0 = Inr bs"
  obtains k where "commit_day c = Inr k" and "group_commits cs (push_commit bs0 k c) = Inr bs"
  using assms by (auto split: sum.splits)

lemma group_commits_sizes:
  "group_commits cs bs0 = Inr bs \<Longrightarrow>
   (\<Sum>b\<leftarrow>bs. length (snd b)) = (\<Sum>b\<leftarrow>bs0. length (snd b)) + length cs"
proof (induction cs arbitrary: bs0)
  case Nil
  then show ?case by simp
next
  case (Cons c cs)
  from Cons.prems obtain k where "group_commits cs (push_commit bs0 k c) = Inr bs"
    by (rule group_commits_Cons)
  from Cons.IH [OF this] show ?case by (simp add: push_commit_sizes)
qed

lemma group_commits_mset:
  "group_commits cs bs0 = Inr bs \<Longrightarrow>
   mset (concat (map snd bs)) = mset (concat (map snd bs0)) + mset cs"
proof (induction cs arbitrary: bs0)
  case Nil
  then show ?case by simp
next
  case (Cons c cs)
  from Cons.prems obtain k where "group_commits cs (push_commit bs0 k c) = Inr bs"
    by (rule group_commits_Cons)
  from Cons.IH [OF this] show ?case by (simp add: push_commit_mset)
qed

lemma group_commits_nonempty:
  "group_commits cs bs0 = Inr bs \<Longrightarrow> list_all (\<lambda>b. snd b \<noteq> []) bs0 \<Longrightarrow>
   list_all (\<lambda>b. snd b \<noteq> []) bs"
proof (induction cs arbitrary: bs0)
  case Nil
  then show ?case by simp
next
  case (Cons c cs)
  from Cons.prems(1) obtain k where "group_commits cs (push_commit bs0 k c) = Inr bs"
    by (rule group_commits_Cons)
  from Cons.IH [OF this push_commit_nonempty [OF Cons.prems(2)]] show ?case .
qed

lemma dec_digits: "c \<in> set (dec n) \<Longrightarrow> 48 \<le> c \<and> c \<le> 57"
proof (induction n arbitrary: c rule: dec.induct)
  case (1 n)
  show ?case
  proof (cases "n < 10")
    case True
    with "1.prems" show ?thesis by (simp add: dec.simps [of n])
  next
    case False
    with "1.prems" have "c \<in> set (dec (n div 10)) \<or> c = 48 + n mod 10"
      by (auto simp: dec.simps [of n])
    then show ?thesis
    proof
      assume "c \<in> set (dec (n div 10))"
      with "1.IH" False show ?thesis by simp
    next
      assume "c = 48 + n mod 10"
      moreover have "n mod 10 < 10" by simp
      ultimately show ?thesis by linarith
    qed
  qed
qed

lemma length_dec: "0 < k \<Longrightarrow> n < 10 ^ k \<Longrightarrow> length (dec n) \<le> k"
proof (induction n arbitrary: k rule: dec.induct)
  case (1 n)
  show ?case
  proof (cases "n < 10")
    case True
    with "1.prems" show ?thesis by (simp add: dec.simps [of n])
  next
    case False
    obtain j where k: "k = Suc j" using "1.prems"(1) by (cases k) auto
    from False "1.prems"(2) k have j: "0 < j" by (cases j) auto
    from "1.prems"(2) k have "n div 10 < 10 ^ j" by (simp add: less_mult_imp_div_less mult.commute)
    from "1.IH" [OF False j this] False k show ?thesis by (simp add: dec.simps [of n])
  qed
qed

lemma length_pad: "0 < k \<Longrightarrow> n < 10 ^ k \<Longrightarrow> length (pad k n) = k"
  using length_dec [of k n] by (simp add: pad_def)

lemma pad_digits: "c \<in> set (pad k n) \<Longrightarrow> 48 \<le> c \<and> c \<le> 57"
  using dec_digits [of c n] by (auto simp: pad_def)

section \<open>Facts about the ISO text of a date\<close>

lemma DayWithinYear_bounds: "0 \<le> DayWithinYear t \<and> DayWithinYear t < 365 + InLeapYear t"
proof -
  have "InLeapYear t = leap_flag (YearFromTime t)" by (simp add: InLeapYear_def leap_flag_def)
  with YearFromTime_bounds [of t] DayFromYear_next [of "YearFromTime t"] show ?thesis
    unfolding DayWithinYear_def by linarith
qed

lemma InLeapYear_cases: "InLeapYear t = 0 \<or> InLeapYear t = 1"
  by (simp add: InLeapYear_def)

lemma MonthFromTime_bounds: "0 \<le> MonthFromTime t \<and> MonthFromTime t \<le> 11"
  by (simp add: MonthFromTime_def Let_def)

lemma DateFromTime_bounds: "1 \<le> DateFromTime t \<and> DateFromTime t \<le> 31"
proof -
  define d where "d = DayWithinYear t"
  define l where "l = InLeapYear t"
  have b: "0 \<le> d" "d < 365 + l" "l = 0 \<or> l = 1"
    using DayWithinYear_bounds [of t] InLeapYear_cases [of t] by (simp_all add: d_def l_def)
  have m: "MonthFromTime t =
     (if d < 31 then 0 else if d < 59 + l then 1 else if d < 90 + l then 2
      else if d < 120 + l then 3 else if d < 151 + l then 4 else if d < 181 + l then 5
      else if d < 212 + l then 6 else if d < 243 + l then 7 else if d < 273 + l then 8
      else if d < 304 + l then 9 else if d < 334 + l then 10 else 11)"
    by (simp add: MonthFromTime_def Let_def d_def l_def)
  have "DateFromTime t =
     (let m = MonthFromTime t in
      if m = 0 then d + 1 else if m = 1 then d - 30 else if m = 2 then d - 58 - l
      else if m = 3 then d - 89 - l else if m = 4 then d - 119 - l else if m = 5 then d - 150 - l
      else if m = 6 then d - 180 - l else if m = 7 then d - 211 - l else if m = 8 then d - 242 - l
      else if m = 9 then d - 272 - l else if m = 10 then d - 303 - l else d - 333 - l)"
    by (simp add: DateFromTime_def Let_def d_def l_def)
  then show ?thesis unfolding m Let_def using b by (auto split: if_splits)
qed

lemma js_single: "js [c] = [of_char c]"
  by (simp add: js_def)

lemma takeWhile_stop:
  assumes "\<And>c. c \<in> set xs \<Longrightarrow> P c" and "\<not> P x"
  shows "takeWhile P (xs @ x # ys) = xs"
  using assms by (simp add: takeWhile_append2)

lemma iso_date_part:
  assumes y: "0 \<le> YearFromTime t" "YearFromTime t \<le> 9999"
  obtains iso where "toISOString (Some t) = Inr iso" and "split_T_0 iso = utc_date_text t"
    and "take 10 iso = utc_date_text t"
proof -
  define rest where "rest = pad 2 (nat (HourFromTime t)) @ js '':'' @
               pad 2 (nat (MinFromTime t)) @ js '':'' @ pad 2 (nat (SecFromTime t)) @ js ''.'' @
               pad 3 (nat (msFromTime t)) @ js ''Z''"
  define iso where "iso = utc_date_text t @ 84 # rest"
  have iy: "iso_year (YearFromTime t) = pad 4 (nat (YearFromTime t))" using y by (simp add: iso_year_def)
  have 1: "toISOString (Some t) = Inr iso"
    by (simp add: toISOString_def iy iso_def utc_date_text_def rest_def js_def)
  have ly: "length (pad 4 (nat (YearFromTime t))) = 4" using y by (intro length_pad) auto
  have lm: "length (pad 2 (nat (MonthFromTime t + 1))) = 2"
    using MonthFromTime_bounds [of t] by (intro length_pad) auto
  have ld: "length (pad 2 (nat (DateFromTime t))) = 2"
    using DateFromTime_bounds [of t] by (intro length_pad) auto
  have len: "length (utc_date_text t) = 10" by (simp add: utc_date_text_def ly lm ld js_def)
  have nt: "c \<in> set (utc_date_text t) \<Longrightarrow> c \<noteq> 84" for c
    using pad_digits [of c] by (auto simp: utc_date_text_def js_def)
  have 2: "split_T_0 iso = utc_date_text t"
    unfolding split_T_0_def iso_def by (rule takeWhile_stop) (use nt in auto)
  have 3: "take 10 iso = utc_date_text t" by (simp add: iso_def len)
  from 1 2 3 show thesis by (rule that)
qed

lemma group_commits_distinct:
  "group_commits cs bs0 = Inr bs \<Longrightarrow> distinct (map fst bs0) \<Longrightarrow> distinct (map fst bs)"
proof (induction cs arbitrary: bs0)
  case Nil
  then show ?case by simp
next
  case (Cons c cs)
  from Cons.prems(1) obtain k where "group_commits cs (push_commit bs0 k c) = Inr bs"
    by (rule group_commits_Cons)
  from Cons.IH [OF this push_commit_distinct [OF Cons.prems(2)]] show ?case .
qed

section \<open>The sample inputs, evaluated\<close>

lemma sample_day_1: "commit_day (sample_commit ''aaaaaaaa11'' 3 12 ''one'') = Inr (js ''2024-01-03'')"
  by code_simp

lemma sample_day_2: "commit_day (sample_commit ''bbbbbbbb22'' 2 15 ''two'') = Inr (js ''2024-01-02'')"
  by code_simp

lemma sample_day_3: "commit_day (sample_commit ''cccccccc33'' 4 5 ''three'') = Inr (js ''2024-01-03'')"
  by code_simp

lemma sample_days:
  "map commit_day sample_commits = map Inr [js ''2024-01-03'', js ''2024-01-02'', js ''2024-01-03'']"
  by (simp add: sample_commits_def sample_day_1 sample_day_2 sample_day_3)

lemma sample_grouping: "group_commits sample_commits [] = Inr sample_buckets"
  by (simp add: sample_commits_def sample_buckets_def sample_day_1 sample_day_2 sample_day_3 js_def)

section \<open>Facts about the loops\<close>

lemma commit_loop_assemble:
  "commit_loop h i cs (rep, st) =
     (rep @ render_entries i cs (fst (summarize_all h cs st)), snd (summarize_all h cs st))"
proof (induction cs arbitrary: i rep st)
  case Nil
  show ?case by simp
next
  case (Cons c cs)
  obtain r st2 where s: "summarize_commit h c (console_log (msg_processing c) st) = (r, st2)"
    by (cases "summarize_commit h c (console_log (msg_processing c) st)")
  show ?case
  proof (cases r)
    case (Inl e)
    with s Cons.IH show ?thesis
      by (simp add: render_entry_def split_beta Let_def)
  next
    case (Inr t)
    with s Cons.IH show ?thesis
      by (simp add: render_entry_def split_beta Let_def)
  qed
qed

lemma length_summarize_all: "length (fst (summarize_all h cs st)) = length cs"
  by (induction cs arbitrary: st) (simp_all add: split_beta Let_def)

lemma writes_of_append: "writes_of (xs @ ys) = writes_of xs @ writes_of ys"
  by (induction xs rule: writes_of.induct) auto

lemma emit_simps:
  "trace (emit e st) = trace st @ [e]" "files (emit e st) = files st" "outside (emit e st) = outside st"
  by (simp_all add: emit_def)

lemma console_simps:
  "trace (console_log s st) = trace st @ [ConsoleLog s]"
  "files (console_log s st) = files st"
  "outside (console_log s st) = outside st"
  "trace (console_error s e st) = trace st @ [ConsoleError s e]"
  "files (console_error s e st) = files st"
  "outside (console_error s e st) = outside st"
  by (simp_all add: console_log_def console_error_def emit_def)

lemma call_chat_create_frame:
  assumes "call_chat_create h req st = (r, st')"
  shows "writes_of (trace st') = writes_of (trace st)" and "files st' = files st"
  using assms by (auto simp: call_chat_create_def emit_def writes_of_append split: prod.splits)

lemma call_git_show_frame:
  assumes "call_git_show h args st = (r, st')"
  shows "writes_of (trace st') = writes_of (trace st)" and "files st' = files st"
  using assms by (auto simp: call_git_show_def emit_def writes_of_append split: prod.splits)

lemma generateMessage_frame:
  assumes "generateMessage h p opts st = (r, st')"
  shows "writes_of (trace st') = writes_of (trace st)" and "files st' = files st"
proof -
  have "writes_of (trace st') = writes_of (trace st) \<and> files st' = files st"
  proof (cases "call_chat_create h (build_request h (case p of JString s \<Rightarrow> s | JOther \<Rightarrow> []) opts) st")
    case (Pair q st1)
    note f = call_chat_create_frame [OF Pair]
    from assms Pair f show ?thesis
      by (auto simp: generateMessage_def split: jsvalue.splits if_splits sum.splits option.splits)
  qed
  then show "writes_of (trace st') = writes_of (trace st)" and "files st' = files st" by simp_all
qed

lemma summarize_commit_frame:
  assumes "summarize_commit h c st = (r, st')"
  shows "writes_of (trace st') = writes_of (trace st)" and "files st' = files st"
proof -
  obtain q st1 where g: "call_git_show h (show_args c) st = (q, st1)"
    by (cases "call_git_show h (show_args c) st")
  note f = call_git_show_frame [OF g]
  have "writes_of (trace st') = writes_of (trace st) \<and> files st' = files st"
  proof (cases q)
    case (Inl e)
    with assms g f show ?thesis by (simp add: summarize_commit_def)
  next
    case (Inr t)
    with assms g have "generateMessage h (JString (summary_instruction @ t)) no_options st1 = (r, st')"
      by (simp add: summarize_commit_def)
    from generateMessage_frame [OF this] f show ?thesis by simp
  qed
  then show "writes_of (trace st') = writes_of (trace st)" and "files st' = files st" by simp_all
qed

lemma summarize_all_frame:
  "writes_of (trace (snd (summarize_all h cs st))) = writes_of (trace st) \<and>
   files (snd (summarize_all h cs st)) = files st"
proof (induction cs arbitrary: st)
  case Nil
  show ?case by simp
next
  case (Cons c cs)
  obtain r st2 where s: "summarize_commit h c (console_log (msg_processing c) st) = (r, st2)"
    by (cases "summarize_commit h c (console_log (msg_processing c) st)")
  note f = summarize_commit_frame [OF s]
  show ?case
  proof (cases r)
    case (Inl e)
    with s f Cons.IH [of "console_error (msg_commit_error c) (Some e) st2"] show ?thesis
      by (simp add: console_simps writes_of_append split_beta Let_def)
  next
    case (Inr t)
    with s f Cons.IH [of st2] show ?thesis
      by (simp add: console_simps writes_of_append split_beta Let_def)
  qed
qed

lemma process_day_eq:
  "process_day h a b st =
     (let st2 = snd (summarize_all h (snd b) (day_start b st));
          rep = assemble (fst b) (snd b) (day_results h b st);
          p = report_path h a (fst b)
      in case write_fault h p rep (outside st2) of
           (None, x) \<Rightarrow>
             st2\<lparr>files := (files st2)(p \<mapsto> rep), outside := x,
                 trace := trace st2 @ [WriteFile p rep, ConsoleLog (msg_saved (fst b) p)]\<rparr>
         | (Some e, x) \<Rightarrow>
             st2\<lparr>outside := x,
                 trace := trace st2 @ [WriteFile p rep, ConsoleError (msg_save_error (fst b)) (Some e)]\<rparr>)"
  by (simp add: process_day_def commit_loop_assemble Let_def writeFileSync_def emit_def
      console_log_def console_error_def day_start_def day_results_def assemble_def report_path_def
      split: prod.splits option.splits)

lemma process_day_writes:
  "writes_of (trace (process_day h a b st)) =
     writes_of (trace st) @ [(report_path h a (fst b), assemble (fst b) (snd b) (day_results h b st))]"
proof -
  have "writes_of (trace (snd (summarize_all h (snd b) (day_start b st)))) = writes_of (trace st)"
    using summarize_all_frame [of h "snd b" "day_start b st"]
    by (simp add: day_start_def console_simps writes_of_append)
  then show ?thesis
    by (simp add: process_day_eq Let_def writes_of_append split: prod.splits option.splits)
qed

lemma day_loop_writes:
  "writes_of (trace (day_loop h a bs st)) = writes_of (trace st) @ reports h a bs (run_results h a bs st)"
  by (induction bs arbitrary: st) (simp_all add: reports_def process_day_writes)

lemma run_results_lengths:
  "map length (run_results h a bs st) = map (\<lambda>b. length (snd b)) bs"
  by (induction bs arbitrary: st) (simp_all add: day_results_def length_summarize_all)

lemma length_run_results: "length (run_results h a bs st) = length bs"
  using run_results_lengths [of h a bs st] by (metis length_map)

lemma reports_paths:
  "map fst (reports h a bs (run_results h a bs st)) = map (\<lambda>b. report_path h a (fst b)) bs"
proof -
  have "length rss = length bs \<Longrightarrow>
      map fst (reports h a bs rss) = map (\<lambda>b. report_path h a (fst b)) bs" for rss
    by (induction bs rss rule: list_induct2') (simp_all add: reports_def)
  then show ?thesis by (simp add: length_run_results)
qed

lemma main_run:
  assumes "window_check (tza h) (startDate a) (endDate a) = None"
    and "git_log h (logOptions a) (outside st) = (Inr commits, x)"
    and "commits \<noteq> []"
    and "group_commits commits [] = Inr bs"
  shows "main h a st =
    console_log msg_files_created (console_log msg_all_done (day_loop h a bs (run_start a commits x st)))"
  using assms
  by (simp add: main_def echo_answers_eq console_log_def call_git_log_def emit_def run_start_def Let_def)

lemma main_run_writes:
  assumes "window_check (tza h) (startDate a) (endDate a) = None"
    and "git_log h (logOptions a) (outside st) = (Inr commits, x)"
    and "commits \<noteq> []"
    and "group_commits commits [] = Inr bs"
  shows "writes_of (trace (main h a st)) =
    writes_of (trace st) @ reports h a bs (run_results h a bs (run_start a commits x st))"
proof -
  have "writes_of (trace (run_start a commits x st)) = writes_of (trace st)"
    by (simp add: run_start_def writes_of_append echo_lines_def)
  then show ?thesis
    by (simp add: main_run [OF assms] console_simps writes_of_append day_loop_writes)
qed

lemma sample_git_log:
  "git_log sample_host (logOptions sample_answers) (outside sample_state) = (Inr sample_commits, 1)"
  by (simp add: sample_host_def sample_state_def)

lemma sample_commits_nonempty: "sample_commits \<noteq> []"
  by (simp add: sample_commits_def)

lemma sample_window_host:
  "window_check (tza sample_host) (startDate sample_answers) (endDate sample_answers) = None"
  using sample_window by (simp add: sample_host_def)

lemma sample_first_appearances:
  "first_appearances [js ''2024-01-03'', js ''2024-01-02'', js ''2024-01-03''] =
      [js ''2024-01-03'', js ''2024-01-02'']"
  by (simp add: first_appearances_def js_def)

lemma summary_instruction_nonempty: "summary_instruction @ t \<noteq> []"
  by (simp add: summary_instruction_def)

lemma sample_host_fields:
  "OPENAI_API_KEY sample_host = Some (js ''key'')"
  "git_show sample_host args n = (if n = 3 then Inl (Error (js ''bad'')) else Inr (js ''diff''), n + 1)"
  "chat_create sample_host req n = (Inr sample_completion, n + 1)"
  "write_fault sample_host p d n = (if n = 4 then Some (Error (js ''EACCES'')) else None, n + 1)"
  "path_join sample_host dir f = dir @ js ''/'' @ f"
  by (simp_all add: sample_host_def)

lemma sample_completion_text: "completion_text sample_completion = Some (js ''ok'')"
  by (simp add: sample_completion_def completion_text_def trim_def is_space_def js_def)

lemma sample_summarize:
  "summarize_commit sample_host c st =
     (if outside st = 3
      then (Inl (Error (js ''bad'')), st\<lparr>outside := 4, trace := trace st @ [GitShow (show_args c)]\<rparr>)
      else (Inr (js ''ok''),
            st\<lparr>outside := outside st + 2,
               trace := trace st @ [GitShow (show_args c),
                 ChatCreate (build_request sample_host (summary_instruction @ js ''diff'') no_options)]\<rparr>))"
  by (simp add: summarize_commit_def call_git_show_def generateMessage_def call_chat_create_def
      emit_def sample_host_fields sample_completion_text summary_instruction_nonempty js_def)

lemma sample_results:
  "run_results sample_host sample_answers sample_buckets
     (run_start sample_answers sample_commits 1 sample_state) =
   [[Inr (js ''ok''), Inl (Error (js ''bad''))], [Inr (js ''ok'')]]"
  by (simp add: sample_buckets_def day_results_def day_start_def run_start_def sample_summarize
      process_day_eq console_log_def console_error_def emit_def Let_def split_beta
      sample_host_fields sample_state_def)

lemma render_entries_concat:
  "length rs = length cs \<Longrightarrow>
   render_entries i cs rs =
     concat (map (\<lambda>(j, c, r). render_entry j c r) (zip [i..<i + length cs] (zip cs rs)))"
proof (induction cs rs arbitrary: i rule: list_induct2')
  case (4 c cs r rs)
  then have "render_entries (Suc i) cs rs =
      concat (map (\<lambda>(j, c, r). render_entry j c r) (zip [Suc i..<Suc i + length cs] (zip cs rs)))"
    by simp
  moreover have "[i..<i + length (c # cs)] = i # [Suc i..<i + length (c # cs)]"
    by (rule upt_conv_Cons) simp
  moreover have "i + length (c # cs) = Suc i + length cs" by simp
  ultimately have "render_entries i (c # cs) (r # rs) =
      concat (map (\<lambda>(j, c, r). render_entry j c r) (zip [i..<i + length (c # cs)] (zip (c # cs) (r # rs))))"
    by (simp only: render_entries.simps zip_Cons_Cons list.map concat.simps prod.case) simp
  then show ?case .
qed simp_all

lemma sample_error_report:
  "report_title (js ''2024-01-03'') @ report_count 1 @
     error_entry 0 (sample_commit ''cccccccc33'' 4 5 ''three'') (Error (js ''bad'')) =
   [35, 32, 50, 48, 50, 52, 45, 48, 49, 45, 48, 51, 32, 52964, 48139, 32, 47532, 54252, 53944, 10, 10,
    52509, 32, 49, 44060, 51032, 32, 52964, 48139, 10, 10,
    35, 35, 32, 52964, 48139, 32, 49, 58, 32, 99, 99, 99, 99, 99, 99, 99, 32, 40, 50724, 47448, 32,
    48156, 49373, 41, 10, 42, 42, 50724, 47448, 42, 42, 58, 32, 98, 97, 100, 10, 10]"
  by (simp add: report_title_def report_count_def error_entry_def entry_heading_def error_mark_def
     error_line_def sample_commit_def substring_0_7_def js_def dec.simps)

lemma sample_error_loop:
  "fst (commit_loop sample_host 0 [sample_commit ''cccccccc33'' 4 5 ''three'']
          (report_title (js ''2024-01-03'') @ report_count 1, sample_state\<lparr>outside := 3\<rparr>)) =
   report_title (js ''2024-01-03'') @ report_count 1 @
     error_entry 0 (sample_commit ''cccccccc33'' 4 5 ''three'') (Error (js ''bad''))"
  by (simp add: commit_loop_assemble sample_summarize console_log_def emit_def
      render_entry_def Let_def)

lemma sample_day_two:
  assumes "outside st \<noteq> 3"
  shows "day_results sample_host (js ''2024-01-02'', [sample_commit ''bbbbbbbb22'' 2 15 ''two'']) st =
           [Inr (js ''ok'')]"
    and "outside (snd (summarize_all sample_host [sample_commit ''bbbbbbbb22'' 2 15 ''two'']
           (day_start (js ''2024-01-02'', [sample_commit ''bbbbbbbb22'' 2 15 ''two'']) st))) = outside st + 2"
  using assms
  by (simp_all add: day_results_def day_start_def sample_summarize console_log_def emit_def
      Let_def split_beta)

lemma sample_report_path:
  "report_path sample_host sample_answers (js ''2024-01-02'') = js ''repo/commit-report-2024-01-02.md''"
  by (simp add: report_path_def report_file_name_def sample_host_fields sample_answers_def js_def)

lemma length_concat_run_results:
  assumes "group_commits commits [] = Inr bs"
  shows "length (concat (run_results h a bs st)) = length commits"
proof -
  have "length (concat (run_results h a bs st)) = sum_list (map length (run_results h a bs st))"
    by (simp add: length_concat)
  also have "\<dots> = (\<Sum>b\<leftarrow>bs. length (snd b))" by (simp add: run_results_lengths)
  also have "\<dots> = length commits" using group_commits_sizes [OF assms] by simp
  finally show ?thesis .
qed

lemma filter_isl_split:
  "length (filter isl xs) + length (filter (\<lambda>r. \<not> isl r) xs) = length xs"
  by (induction xs) auto

section \<open>The text of a report\<close>

lemma length_day_results: "length (day_results h b st) = length (snd b)"
  by (simp add: day_results_def length_summarize_all)

lemma render_entry_text:
  "render_entry i c r =
     (case r of
        Inr s \<Rightarrow>
          js ''## '' @ [0xCEE4, 0xBC0B] @ js '' '' @ dec (i + 1) @ js '': '' @ take 7 (hash c) @ [0x0A] @
          js ''**'' @ [0xBA54, 0xC2DC, 0xC9C0] @ js ''**: '' @ subject c @ [0x0A, 0x0A] @
          js ''### AI '' @ [0xC694, 0xC57D, 0x0A] @ s @ [0x0A, 0x0A] @
          js ''---'' @ [0x0A, 0x0A]
      | Inl e \<Rightarrow>
          js ''## '' @ [0xCEE4, 0xBC0B] @ js '' '' @ dec (i + 1) @ js '': '' @ take 7 (hash c) @
          js '' ('' @ [0xC624, 0xB958] @ js '' '' @ [0xBC1C, 0xC0DD] @ js '')'' @ [0x0A] @
          js ''**'' @ [0xC624, 0xB958] @ js ''**: '' @ message e @ [0x0A, 0x0A])"
  by (simp add: render_entry_def ok_entry_def error_entry_def entry_heading_def subject_line_def
      summary_section_def separator_def error_mark_def error_line_def substring_0_7_def
      split: sum.splits)

lemma assemble_text:
  assumes "length rs = length cs"
  shows "assemble d cs rs =
     (js ''# '' @ d @ js '' '' @ [0xCEE4, 0xBC0B] @ js '' '' @ [0xB9AC, 0xD3EC, 0xD2B8, 0x0A, 0x0A]) @
     ([0xCD1D] @ js '' '' @ dec (length cs) @ [0xAC1C, 0xC758] @ js '' '' @ [0xCEE4, 0xBC0B, 0x0A, 0x0A]) @
     concat (map (\<lambda>(i, c, r).
         case r of
           Inr s \<Rightarrow>
             js ''## '' @ [0xCEE4, 0xBC0B] @ js '' '' @ dec (i + 1) @ js '': '' @ take 7 (hash c) @ [0x0A] @
             js ''**'' @ [0xBA54, 0xC2DC, 0xC9C0] @ js ''**: '' @ subject c @ [0x0A, 0x0A] @
             js ''### AI '' @ [0xC694, 0xC57D, 0x0A] @ s @ [0x0A, 0x0A] @
             js ''---'' @ [0x0A, 0x0A]
         | Inl e \<Rightarrow>
             js ''## '' @ [0xCEE4, 0xBC0B] @ js '' '' @ dec (i + 1) @ js '': '' @ take 7 (hash c) @
             js '' ('' @ [0xC624, 0xB958] @ js '' '' @ [0xBC1C, 0xC0DD] @ js '')'' @ [0x0A] @
             js ''**'' @ [0xC624, 0xB958] @ js ''**: '' @ message e @ [0x0A, 0x0A])
       (zip [0..<length cs] (zip cs rs)))"
proof -
  have e: "(\<lambda>(j, c, r). render_entry j c r) =
     (\<lambda>(i, c, r).
         case r of
           Inr s \<Rightarrow>
             js ''## '' @ [0xCEE4, 0xBC0B] @ js '' '' @ dec (i + 1) @ js '': '' @ take 7 (hash c) @ [0x0A] @
             js ''**'' @ [0xBA54, 0xC2DC, 0xC9C0] @ js ''**: '' @ subject c @ [0x0A, 0x0A] @
             js ''### AI '' @ [0xC694, 0xC57D, 0x0A] @ s @ [0x0A, 0x0A] @
             js ''---'' @ [0x0A, 0x0A]
         | Inl e \<Rightarrow>
             js ''## '' @ [0xCEE4, 0xBC0B] @ js '' '' @ dec (i + 1) @ js '': '' @ take 7 (hash c) @
             js '' ('' @ [0xC624, 0xB958] @ js '' '' @ [0xBC1C, 0xC0DD] @ js '')'' @ [0x0A] @
             js ''**'' @ [0xC624, 0xB958] @ js ''**: '' @ message e @ [0x0A, 0x0A])"
    by (simp add: fun_eq_iff render_entry_text)
  show ?thesis
    using render_entries_concat [OF assms, of 0]
    by (simp add: assemble_def report_title_def report_count_def e)
qed

lemma sample_day_one_loop:
  "summarize_all sample_host
     [sample_commit ''aaaaaaaa11'' 3 12 ''one'', sample_commit ''cccccccc33'' 4 5 ''three'']
     (sample_state\<lparr>outside := 1\<rparr>) =
   ([Inr (js ''ok''), Inl (Error (js ''bad''))],
    snd (summarize_all sample_host
      [sample_commit ''aaaaaaaa11'' 3 12 ''one'', sample_commit ''cccccccc33'' 4 5 ''three'']
      (sample_state\<lparr>outside := 1\<rparr>)))"
  by (simp add: sample_summarize console_log_def console_error_def emit_def Let_def split_beta
      sample_state_def)

section \<open>Results and failures\<close>

lemma summarize_commit_result:
  "fst (summarize_commit h c s) =
     (case git_show h (show_args c) (outside s) of
        (Inl e, x1) \<Rightarrow> Inl e
      | (Inr t, x1) \<Rightarrow>
          if OPENAI_API_KEY h = None \<or> OPENAI_API_KEY h = Some [] then Inl (Error err_api_key)
          else
            (case chat_create h (build_request h (summary_instruction @ t) no_options) x1 of
               (Inl e, x2) \<Rightarrow> Inl e
             | (Inr completion, x2) \<Rightarrow>
                 (case completion_text completion of
                    None \<Rightarrow> Inl (Error err_no_text)
                  | Some txt \<Rightarrow> if txt = [] then Inl (Error err_no_text) else Inr txt)))"
proof -
  have ne: "summary_instruction \<noteq> []" by (simp add: summary_instruction_def)
  show ?thesis
    by (auto simp: summarize_commit_def call_git_show_def generateMessage_def call_chat_create_def
        emit_def Let_def ne split: prod.splits sum.splits option.splits)
qed

lemma summarize_all_nth:
  "i < length cs \<Longrightarrow>
   fst (summarize_all h cs s) ! i =
     fst (summarize_commit h (cs ! i)
           (console_log (msg_processing (cs ! i)) (snd (summarize_all h (take i cs) s))))"
proof (induction cs arbitrary: i s)
  case Nil
  then show ?case by simp
next
  case (Cons c cs)
  show ?case
  proof (cases i)
    case 0
    then show ?thesis by (simp add: split_beta Let_def)
  next
    case (Suc j)
    with Cons.prems have "j < length cs" by simp
    from Cons.IH [OF this] Suc show ?thesis by (simp add: split_beta Let_def)
  qed
qed

lemma commit_loop_state: "snd (commit_loop h i cs (rep, s)) = snd (summarize_all h cs s)"
  by (simp add: commit_loop_assemble)

lemma run_results_nth:
  "j < length bs \<Longrightarrow>
   run_results h a bs st ! j = day_results h (bs ! j) (day_loop h a (take j bs) st)"
proof (induction bs arbitrary: j st)
  case Nil
  then show ?case by simp
next
  case (Cons b bs)
  show ?case
  proof (cases j)
    case 0
    then show ?thesis by simp
  next
    case (Suc k)
    with Cons.prems have "k < length bs" by simp
    from Cons.IH [OF this] Suc show ?thesis by simp
  qed
qed

lemma fault_day_4: "commit_day (sample_commit ''dddddddd44'' 2 16 ''four'') = Inr (js ''2024-01-02'')"
  by code_simp

lemma fault_day_5: "commit_day (sample_commit ''eeeeeeee55'' 5 12 ''five'') = Inr (js ''2024-01-05'')"
  by code_simp

lemma fault_grouping: "group_commits fault_commits [] = Inr fault_buckets"
  by (simp add: fault_commits_def fault_buckets_def sample_day_1 sample_day_2 sample_day_3
      fault_day_4 fault_day_5 js_def)

lemma fault_git_log:
  "git_log fault_host (logOptions sample_answers) (outside sample_state) = (Inr fault_commits, 1)"
  by (simp add: fault_host_def sample_state_def)

lemma fault_commits_nonempty: "fault_commits \<noteq> []"
  by (simp add: fault_commits_def)

lemma fault_window_host:
  "window_check (tza fault_host) (startDate sample_answers) (endDate sample_answers) = None"
  using sample_window by (simp add: fault_host_def)

lemma fault_host_fields:
  "OPENAI_API_KEY fault_host = Some (js ''key'')"
  "git_show fault_host args n = (if n = 3 then Inl (Error (js ''bad'')) else Inr (js ''diff''), n + 1)"
  "chat_create fault_host req n =
     (if n = 6 then Inl (Error (js ''down''))
      else if n = 8 then Inr blank_completion else Inr sample_completion, n + 1)"
  "write_fault fault_host p d n = (None, n + 1)"
  "path_join fault_host dir f = dir @ js ''/'' @ f"
  by (simp_all add: fault_host_def)

lemma blank_completion_text: "completion_text blank_completion = Some []"
  by (simp add: blank_completion_def completion_text_def trim_def is_space_def js_def)

lemma fault_summarize:
  "fst (summarize_commit fault_host c st) =
     (if outside st = 3 then Inl (Error (js ''bad''))
      else if outside st = 5 then Inl (Error (js ''down''))
      else if outside st = 7 then Inl (Error err_no_text)
      else Inr (js ''ok''))"
  "outside (snd (summarize_commit fault_host c st)) =
     (if outside st = 3 then 4 else outside st + 2)"
  by (simp_all add: summarize_commit_def call_git_show_def generateMessage_def call_chat_create_def
      emit_def fault_host_fields sample_completion_text blank_completion_text
      summary_instruction_def js_def)

lemma fault_results:
  "run_results fault_host sample_answers fault_buckets
     (run_start sample_answers fault_commits 1 sample_state) =
   [[Inr (js ''ok''), Inl (Error (js ''bad''))],
    [Inl (Error (js ''down'')), Inl (Error err_no_text)],
    [Inr (js ''ok'')]]"
  by (simp add: fault_buckets_def day_results_def day_start_def run_start_def fault_summarize
      process_day_eq console_simps Let_def split_beta fault_host_fields sample_state_def)

lemma commit_loop_text:
  "fst (commit_loop h 0 cs (rep, sd)) =
     rep @ concat (map (\<lambda>(i, c, r).
              case r of
                Inr s \<Rightarrow>
                  js ''## '' @ [0xCEE4, 0xBC0B] @ js '' '' @ dec (i + 1) @ js '': '' @ take 7 (hash c) @ [0x0A] @
                  js ''**'' @ [0xBA54, 0xC2DC, 0xC9C0] @ js ''**: '' @ subject c @ [0x0A, 0x0A] @
                  js ''### AI '' @ [0xC694, 0xC57D, 0x0A] @ s @ [0x0A, 0x0A] @
                  js ''---'' @ [0x0A, 0x0A]
              | Inl e \<Rightarrow>
                  js ''## '' @ [0xCEE4, 0xBC0B] @ js '' '' @ dec (i + 1) @ js '': '' @ take 7 (hash c) @
                  js '' ('' @ [0xC624, 0xB958] @ js '' '' @ [0xBC1C, 0xC0DD] @ js '')'' @ [0x0A] @
                  js ''**'' @ [0xC624, 0xB958] @ js ''**: '' @ message e @ [0x0A, 0x0A])
       (zip [0..<length cs] (zip cs (fst (summarize_all h cs sd)))))"
proof -
  have e: "(\<lambda>(j, c, r). render_entry j c r) =
     (\<lambda>(i, c, r).
         case r of
           Inr s \<Rightarrow>
             js ''## '' @ [0xCEE4, 0xBC0B] @ js '' '' @ dec (i + 1) @ js '': '' @ take 7 (hash c) @ [0x0A] @
             js ''**'' @ [0xBA54, 0xC2DC, 0xC9C0] @ js ''**: '' @ subject c @ [0x0A, 0x0A] @
             js ''### AI '' @ [0xC694, 0xC57D, 0x0A] @ s @ [0x0A, 0x0A] @
             js ''---'' @ [0x0A, 0x0A]
         | Inl e \<Rightarrow>
             js ''## '' @ [0xCEE4, 0xBC0B] @ js '' '' @ dec (i + 1) @ js '': '' @ take 7 (hash c) @
             js '' ('' @ [0xC624, 0xB958] @ js '' '' @ [0xBC1C, 0xC0DD] @ js '')'' @ [0x0A] @
             js ''**'' @ [0xC624, 0xB958] @ js ''**: '' @ message e @ [0x0A, 0x0A])"
    by (simp add: fun_eq_iff render_entry_text)
  have l: "length (fst (summarize_all h cs sd)) = length cs" by (rule length_summarize_all)
  have "fst (commit_loop h 0 cs (rep, sd)) = rep @ render_entries 0 cs (fst (summarize_all h cs sd))"
    by (simp add: commit_loop_assemble)
  also have "render_entries 0 cs (fst (summarize_all h cs sd)) =
      concat (map (\<lambda>(j, c, r). render_entry j c r)
        (zip [0..<length cs] (zip cs (fst (summarize_all h cs sd)))))"
    using render_entries_concat [OF l, of 0] by simp
  finally show ?thesis by (simp only: e)
qed

lemma reports_text:
  assumes "length rss = length bs" and "map length rss = map (\<lambda>b. length (snd b)) bs"
  shows "reports h a bs rss =
     map (\<lambda>(b, rs).
        (path_join h (gitPath a) (js ''commit-report-'' @ fst b @ js ''.md''),
         (js ''# '' @ fst b @ js '' '' @ [0xCEE4, 0xBC0B] @ js '' '' @ [0xB9AC, 0xD3EC, 0xD2B8, 0x0A, 0x0A]) @
         ([0xCD1D] @ js '' '' @ dec (length (snd b)) @ [0xAC1C, 0xC758] @ js '' '' @
            [0xCEE4, 0xBC0B, 0x0A, 0x0A]) @
         concat (map (\<lambda>(i, c, r).
                      case r of
                        Inr s \<Rightarrow>
                          js ''## '' @ [0xCEE4, 0xBC0B] @ js '' '' @ dec (i + 1) @ js '': '' @ take 7 (hash c) @ [0x0A] @
                          js ''**'' @ [0xBA54, 0xC2DC, 0xC9C0] @ js ''**: '' @ subject c @ [0x0A, 0x0A] @
                          js ''### AI '' @ [0xC694, 0xC57D, 0x0A] @ s @ [0x0A, 0x0A] @
                          js ''---'' @ [0x0A, 0x0A]
                      | Inl e \<Rightarrow>
                          js ''## '' @ [0xCEE4, 0xBC0B] @ js '' '' @ dec (i + 1) @ js '': '' @ take 7 (hash c) @
                          js '' ('' @ [0xC624, 0xB958] @ js '' '' @ [0xBC1C, 0xC0DD] @ js '')'' @ [0x0A] @
                          js ''**'' @ [0xC624, 0xB958] @ js ''**: '' @ message e @ [0x0A, 0x0A])
           (zip [0..<length (snd b)] (zip (snd b) rs)))))
       (zip bs rss)"
  using assms
proof (induction bs rss rule: list_induct2')
  case (4 b bs rs rss)
  then have l: "length rs = length (snd b)" by simp
  from 4 have "reports h a bs rss =
     map (\<lambda>(b, rs).
        (path_join h (gitPath a) (js ''commit-report-'' @ fst b @ js ''.md''),
         (js ''# '' @ fst b @ js '' '' @ [0xCEE4, 0xBC0B] @ js '' '' @ [0xB9AC, 0xD3EC, 0xD2B8, 0x0A, 0x0A]) @
         ([0xCD1D] @ js '' '' @ dec (length (snd b)) @ [0xAC1C, 0xC758] @ js '' '' @
            [0xCEE4, 0xBC0B, 0x0A, 0x0A]) @
         concat (map (\<lambda>(i, c, r).
                      case r of
                        Inr s \<Rightarrow>
                          js ''## '' @ [0xCEE4, 0xBC0B] @ js '' '' @ dec (i + 1) @ js '': '' @ take 7 (hash c) @ [0x0A] @
                          js ''**'' @ [0xBA54, 0xC2DC, 0xC9C0] @ js ''**: '' @ subject c @ [0x0A, 0x0A] @
                          js ''### AI '' @ [0xC694, 0xC57D, 0x0A] @ s @ [0x0A, 0x0A] @
                          js ''---'' @ [0x0A, 0x0A]
                      | Inl e \<Rightarrow>
                          js ''## '' @ [0xCEE4, 0xBC0B] @ js '' '' @ dec (i + 1) @ js '': '' @ take 7 (hash c) @
                          js '' ('' @ [0xC624, 0xB958] @ js '' '' @ [0xBC1C, 0xC0DD] @ js '')'' @ [0x0A] @
                          js ''**'' @ [0xC624, 0xB958] @ js ''**: '' @ message e @ [0x0A, 0x0A])
           (zip [0..<length (snd b)] (zip (snd b) rs)))))
       (zip bs rss)" by simp
  then show ?case
    using assemble_text [OF l, of "fst b"]
    by (simp add: reports_def report_path_def report_file_name_def)
qed (simp_all add: reports_def)

lemma errors_of_append: "errors_of (xs @ ys) = errors_of xs @ errors_of ys"
  by (induction xs rule: errors_of.induct) auto

lemma summarize_commit_errors:
  "errors_of (trace (snd (summarize_commit h c st))) = errors_of (trace st)"
  by (auto simp: summarize_commit_def call_git_show_def generateMessage_def call_chat_create_def
      emit_def Let_def errors_of_append split: prod.splits sum.splits option.splits)

lemma summarize_all_errors:
  "errors_of (trace (snd (summarize_all h cs st))) =
     errors_of (trace st) @
     concat (map (\<lambda>(c, r). case r of Inl e \<Rightarrow> [(msg_commit_error c, e)] | Inr s \<Rightarrow> [])
       (zip cs (fst (summarize_all h cs st))))"
proof (induction cs arbitrary: st)
  case Nil
  show ?case by simp
next
  case (Cons c cs)
  obtain r st2 where s: "summarize_commit h c (console_log (msg_processing c) st) = (r, st2)"
    by (cases "summarize_commit h c (console_log (msg_processing c) st)")
  have f: "errors_of (trace st2) = errors_of (trace st)"
    using summarize_commit_errors [of h c "console_log (msg_processing c) st"] s
    by (simp add: console_simps errors_of_append)
  show ?case
  proof (cases r)
    case (Inl e)
    with s f Cons.IH [of "console_error (msg_commit_error c) (Some e) st2"] show ?thesis
      by (simp add: console_simps errors_of_append split_beta Let_def)
  next
    case (Inr t)
    with s f Cons.IH [of st2] show ?thesis
      by (simp add: console_simps errors_of_append split_beta Let_def)
  qed
qed

lemma commit_loop_errors:
  "errors_of (trace (snd (commit_loop h 0 cs (rep, sd)))) =
     errors_of (trace sd) @
     concat (map (\<lambda>(c, r).
         case r of
           Inl e \<Rightarrow>
             [([0xCEE4, 0xBC0B] @ js '' '' @ hash c @ js '' '' @ [0xCC98, 0xB9AC] @ js '' '' @ [0xC911] @
               js '' '' @ [0xC624, 0xB958] @ js '':'', e)]
         | Inr s \<Rightarrow> [])
       (zip cs (fst (summarize_all h cs sd))))"
proof -
  have e: "(\<lambda>(c, r). case r of Inl e \<Rightarrow> [(msg_commit_error c, e)] | Inr s \<Rightarrow> []) =
     (\<lambda>(c, r).
         case r of
           Inl e \<Rightarrow>
             [([0xCEE4, 0xBC0B] @ js '' '' @ hash c @ js '' '' @ [0xCC98, 0xB9AC] @ js '' '' @ [0xC911] @
               js '' '' @ [0xC624, 0xB958] @ js '':'', e)]
         | Inr s \<Rightarrow> [])"
    by (simp add: fun_eq_iff msg_commit_error_def split: sum.splits)
  show ?thesis
    unfolding commit_loop_state summarize_all_errors e ..
qed

lemma sample_day_one_results:
  "outside st = 1 \<Longrightarrow>
   day_results sample_host
     (js ''2024-01-03'', [sample_commit ''aaaaaaaa11'' 3 12 ''one'', sample_commit ''cccccccc33'' 4 5 ''three''])
     st = [Inr (js ''ok''), Inl (Error (js ''bad''))]"
  by (simp add: day_results_def day_start_def sample_summarize console_log_def console_error_def
      emit_def Let_def split_beta)

section \<open>The claims\<close>

subsection \<open>The summarizer never returns a blank text\<close>

lemma generateMessage_Inr:
  assumes "fst (generateMessage h prompt options st) = Inr text"
  shows "text \<noteq> [] \<and> trim text = text"
proof (cases prompt)
  case JOther
  with assms show ?thesis by (simp add: generateMessage_def)
next
  case (JString p)
  with assms show ?thesis
    by (auto simp: generateMessage_def completion_text_trimmed
             split: if_splits prod.splits sum.splits option.splits)
qed

text \<open>
  C9. \<^verbatim>\<open>generateMessage\<close> throws, with its first message, when the prompt is not a string
  or is the empty string; it throws when the variable OPENAI_API_KEY is unset or empty; it
  throws, with its third message, when the answer of the service has no text or a text that is
  empty once trimmed; and every text it returns is non-empty, is not made of white space only,
  and has no white space left at either end.
\<close>

theorem generateMessage_never_blank:
  "(prompt = JOther \<or> prompt = JString [] \<longrightarrow>
      generateMessage h prompt options st = (Inl (Error err_prompt), st)) \<and>
   (OPENAI_API_KEY h = None \<or> OPENAI_API_KEY h = Some [] \<longrightarrow>
      generateMessage h prompt options st = (Inl (Error err_prompt), st) \<or>
      generateMessage h prompt options st = (Inl (Error err_api_key), st)) \<and>
   (\<forall>p completion st1.
      prompt = JString p \<and> p \<noteq> [] \<and> OPENAI_API_KEY h \<noteq> None \<and> OPENAI_API_KEY h \<noteq> Some [] \<and>
      call_chat_create h (build_request h p options) st = (Inr completion, st1) \<and>
      (completion_text completion = None \<or> completion_text completion = Some []) \<longrightarrow>
      generateMessage h prompt options st = (Inl (Error err_no_text), st1)) \<and>
   (\<forall>text. fst (generateMessage h prompt options st) = Inr text \<longrightarrow>
      text \<noteq> [] \<and> \<not> list_all is_space text \<and> trim text = text \<and>
      \<not> is_space (hd text) \<and> \<not> is_space (last text))"
proof (intro conjI allI impI)
  assume "prompt = JOther \<or> prompt = JString []"
  then show "generateMessage h prompt options st = (Inl (Error err_prompt), st)"
    by (auto simp: generateMessage_def)
next
  assume "OPENAI_API_KEY h = None \<or> OPENAI_API_KEY h = Some []"
  then show "generateMessage h prompt options st = (Inl (Error err_prompt), st) \<or>
      generateMessage h prompt options st = (Inl (Error err_api_key), st)"
    by (cases prompt) (auto simp: generateMessage_def)
next
  fix p completion st1
  assume "prompt = JString p \<and> p \<noteq> [] \<and> OPENAI_API_KEY h \<noteq> None \<and> OPENAI_API_KEY h \<noteq> Some [] \<and>
      call_chat_create h (build_request h p options) st = (Inr completion, st1) \<and>
      (completion_text completion = None \<or> completion_text completion = Some [])"
  then show "generateMessage h prompt options st = (Inl (Error err_no_text), st1)"
    by (auto simp: generateMessage_def)
next
  fix t
  assume r: "fst (generateMessage h prompt options st) = Inr t"
  from generateMessage_Inr [OF r] have ne: "t \<noteq> []" and tr: "trim t = t" by simp_all
  from ne tr have "trim t \<noteq> []" by simp
  from trim_hd [OF this] trim_last [OF this] tr
  have hl: "\<not> is_space (hd t)" "\<not> is_space (last t)" by simp_all
  show "t \<noteq> []" by (rule ne)
  show "\<not> list_all is_space t" using ne hl(1) by (rule not_blank)
  show "trim t = t" by (rule tr)
  show "\<not> is_space (hd t)" by (rule hl(1))
  show "\<not> is_space (last t)" by (rule hl(2))
qed

theorem generateMessage_never_blank_witness:
  "generateMessage sample_host JOther no_options sample_state = (Inl (Error err_prompt), sample_state) \<and>
   fst (generateMessage sample_host (JString (js ''p'')) no_options sample_state) = Inr (js ''ok'') \<and>
   js ''ok'' \<noteq> [] \<and> \<not> list_all is_space (js ''ok'') \<and> trim (js ''ok'') = js ''ok''"
proof -
  have r: "fst (generateMessage sample_host (JString (js ''p'')) no_options sample_state) = Inr (js ''ok'')"
    by (simp add: generateMessage_def sample_host_def sample_state_def call_chat_create_def emit_def
        sample_completion_def completion_text_def no_options_def js_def trim_def is_space_def
        build_request_def)
  from generateMessage_never_blank [where prompt = JOther and h = sample_host and options = no_options
      and st = sample_state]
  have a: "generateMessage sample_host JOther no_options sample_state = (Inl (Error err_prompt), sample_state)"
    by simp
  from generateMessage_never_blank [where prompt = "JString (js ''p'')" and h = sample_host
      and options = no_options and st = sample_state] r
  have b: "js ''ok'' \<noteq> [] \<and> \<not> list_all is_space (js ''ok'') \<and> trim (js ''ok'') = js ''ok''"
    by blast
  from a r b show ?thesis by blast
qed

subsection \<open>The order of the two dates\<close>

text \<open>
  C4. When the start date is a calendar date after the end date, the run consists of the
  repeated answers and the message that the start date is later than the end date, and nothing
  else: the log is not asked for, no commit is looked at, no file is written, and the files and
  the outside world are as before.
\<close>

theorem invalid_range_aborts:
  assumes "calendar_date (startDate a)" and "calendar_date (endDate a)"
    and "date_before (endDate a) (startDate a)"
  shows "window_check (tza h) (startDate a) (endDate a) = Some msg_invalid_range \<and>
    main h a st = st\<lparr>trace := trace st @ echo_lines a @ [ConsoleError msg_invalid_range None]\<rparr> \<and>
    files (main h a st) = files st \<and> outside (main h a st) = outside st"
proof -
  have w: "window_check (tza h) (startDate a) (endDate a) = Some msg_invalid_range"
    using assms by (rule window_check_invalid)
  from main_window_stop [OF w] w show ?thesis by simp
qed

theorem invalid_range_aborts_witness:
  "main sample_host (sample_answers\<lparr>startDate := \<lparr>yyyy = 2024, mm = 3, dd = 10\<rparr>,
       endDate := \<lparr>yyyy = 2024, mm = 3, dd = 1\<rparr>\<rparr>) sample_state =
   sample_state\<lparr>trace :=
     [ConsoleLog msg_input_header, ConsoleLog (msg_path (js ''repo'')),
      ConsoleLog (msg_start (ymd_text \<lparr>yyyy = 2024, mm = 3, dd = 10\<rparr>)),
      ConsoleLog (msg_end (ymd_text \<lparr>yyyy = 2024, mm = 3, dd = 1\<rparr>)),
      ConsoleError msg_invalid_range None]\<rparr>"
  using invalid_range_aborts [of "sample_answers\<lparr>startDate := \<lparr>yyyy = 2024, mm = 3, dd = 10\<rparr>,
       endDate := \<lparr>yyyy = 2024, mm = 3, dd = 1\<rparr>\<rparr>" sample_host sample_state]
  by (simp add: sample_answers_def sample_state_def calendar_date_def days_in_month_def
      date_before_def echo_lines_def)

subsection \<open>The cap of two months\<close>

text \<open>
  C3, as the program has it. In a time zone at a fixed offset from 0 up to, but not including,
  one day east of UTC, and for calendar dates: the window is refused as too large exactly when
  the start is not after the end and the end is after the cap; the cap is the day with the
  start's day number in the month two months on, and when that month is too short the days
  that are missing are counted on into the following month (31 December gives 2 or 3 March).
  An end on the cap is accepted. When the window is refused the run stops with that message.
\<close>

theorem range_cap_rollover:
  assumes "calendar_date s" and "calendar_date e" and "0 \<le> z" and "z < msPerDay"
  shows "(window_check z s e = Some msg_range_too_large \<longleftrightarrow>
            \<not> date_before e s \<and> date_before (add_two_months_rollover s) e) \<and>
         (e = add_two_months_rollover s \<longrightarrow> window_check z s e = None) \<and>
         (tza h = z \<and> startDate a = s \<and> endDate a = e \<and>
          \<not> date_before e s \<and> date_before (add_two_months_rollover s) e \<longrightarrow>
          main h a st = st\<lparr>trace := trace st @ echo_lines a @ [ConsoleError msg_range_too_large None]\<rparr>)"
proof -
  note w = window_check_calendar [OF assms]
  have irr: "\<not> date_before x x" for x by (simp add: date_before_def)
  have asym: "date_before x y \<Longrightarrow> \<not> date_before y x" for x y
    by (auto simp: date_before_def)
  have 1: "window_check z s e = Some msg_range_too_large \<longleftrightarrow>
      \<not> date_before e s \<and> date_before (add_two_months_rollover s) e"
    using messages_differ by (auto simp: w)
  have 2: "e = add_two_months_rollover s \<longrightarrow> window_check z s e = None"
  proof
    assume eq: "e = add_two_months_rollover s"
    from assms have rs: "real_date s" and re: "real_date e" by (simp_all add: calendar_date_real)
    have "day_number s < day_number e"
      using day_number_before_cap [OF rs] rollover_day_number(2) [OF rs] eq by simp
    then have "date_before s e" by (simp add: day_number_iso [OF rs re])
    then have "\<not> date_before e s" by (rule asym)
    moreover have "\<not> date_before (add_two_months_rollover s) e" using irr [of e] eq by simp
    ultimately show "window_check z s e = None" unfolding w by simp
  qed
  have 3: "tza h = z \<and> startDate a = s \<and> endDate a = e \<and>
      \<not> date_before e s \<and> date_before (add_two_months_rollover s) e \<longrightarrow>
      main h a st = st\<lparr>trace := trace st @ echo_lines a @ [ConsoleError msg_range_too_large None]\<rparr>"
  proof
    assume h: "tza h = z \<and> startDate a = s \<and> endDate a = e \<and>
      \<not> date_before e s \<and> date_before (add_two_months_rollover s) e"
    with 1 have "window_check (tza h) (startDate a) (endDate a) = Some msg_range_too_large"
      by simp
    then show "main h a st =
        st\<lparr>trace := trace st @ echo_lines a @ [ConsoleError msg_range_too_large None]\<rparr>"
      by (rule main_window_stop)
  qed
  from 1 2 3 show ?thesis by (intro conjI)
qed

theorem range_cap_rollover_witness:
  "window_check 0 \<lparr>yyyy = 2023, mm = 12, dd = 31\<rparr> \<lparr>yyyy = 2024, mm = 3, dd = 3\<rparr> =
     Some msg_range_too_large \<and>
   window_check 0 \<lparr>yyyy = 2023, mm = 12, dd = 31\<rparr> \<lparr>yyyy = 2024, mm = 3, dd = 2\<rparr> = None"
proof -
  let ?s = "\<lparr>yyyy = 2023, mm = 12, dd = 31\<rparr>"
  let ?e = "\<lparr>yyyy = 2024, mm = 3, dd = 3\<rparr>" and ?c = "\<lparr>yyyy = 2024, mm = 3, dd = 2\<rparr>"
  have c: "calendar_date ?s" "calendar_date ?e" "calendar_date ?c"
    by (simp_all add: calendar_date_def days_in_month_def)
  have z: "(0::int) \<le> 0" "0 < msPerDay" by (simp_all add: msPerDay_def)
  have r: "add_two_months_rollover ?s = ?c"
    by (simp add: add_two_months_rollover_def two_months_on_def days_in_month_def leap_year_def)
  have b: "\<not> date_before ?e ?s" "date_before ?c ?e"
    by (simp_all add: date_before_def)
  from range_cap_rollover [OF c(1) c(2) z, where h = sample_host and a = sample_answers
      and st = sample_state, THEN conjunct1] b r
  have 1: "window_check 0 ?s ?e = Some msg_range_too_large" by simp
  from range_cap_rollover [OF c(1) c(3) z, where h = sample_host and a = sample_answers
      and st = sample_state, THEN conjunct2, THEN conjunct1] r
  have 2: "window_check 0 ?s ?c = None" by simp
  from 1 2 show ?thesis by (rule conjI)
qed

text \<open>
  C3 as stated fails. With the month-end adjustment of calendar arithmetic, two months after
  31 December 2023 is 29 February 2024, so a window ending on 1 March 2024 is longer than two
  calendar months; the program accepts it, its cap being 2 March.
\<close>

theorem range_cap_clamped_counterexample:
  "\<not> (date_before (add_two_months_clamped \<lparr>yyyy = 2023, mm = 12, dd = 31\<rparr>) \<lparr>yyyy = 2024, mm = 3, dd = 1\<rparr> \<longrightarrow>
       window_check 0 \<lparr>yyyy = 2023, mm = 12, dd = 31\<rparr> \<lparr>yyyy = 2024, mm = 3, dd = 1\<rparr> =
         Some msg_range_too_large)"
proof -
  have c: "calendar_date \<lparr>yyyy = 2023, mm = 12, dd = 31\<rparr>" "calendar_date \<lparr>yyyy = 2024, mm = 3, dd = 1\<rparr>"
    by (simp_all add: calendar_date_def days_in_month_def)
  have z: "(0::int) \<le> 0" "0 < msPerDay" by (simp_all add: msPerDay_def)
  have r: "add_two_months_rollover \<lparr>yyyy = 2023, mm = 12, dd = 31\<rparr> = \<lparr>yyyy = 2024, mm = 3, dd = 2\<rparr>"
    by (simp add: add_two_months_rollover_def two_months_on_def days_in_month_def leap_year_def)
  have "window_check 0 \<lparr>yyyy = 2023, mm = 12, dd = 31\<rparr> \<lparr>yyyy = 2024, mm = 3, dd = 1\<rparr> = None"
    unfolding window_check_calendar [OF c z] r by (simp add: date_before_def)
  moreover have "add_two_months_clamped \<lparr>yyyy = 2023, mm = 12, dd = 31\<rparr> = \<lparr>yyyy = 2024, mm = 2, dd = 29\<rparr>"
    by (simp add: add_two_months_clamped_def two_months_on_def days_in_month_def leap_year_def)
  ultimately show ?thesis by (simp add: date_before_def)
qed

subsection \<open>A window without commits\<close>



subsection \<open>Grouping by day\<close>

text \<open>
  C5. Let every commit of the list have a day, \<open>ks\<close> being the days in the order of the list.
  Then grouping gives one bucket for each day, and the bucket of day \<open>k\<close> holds the commits
  of the list whose day is \<open>k\<close>, in the order of the list. The result is this function of the
  list and of nothing else, so grouping the same list again gives the same buckets in the same
  order. The day of a commit whose time in UTC lies in a year from 0 to 9999 is the first ten
  characters of the ISO text of that time, which is its calendar date in UTC.
\<close>

theorem grouping_by_utc_day:
  assumes "map commit_day commits = map Inr ks"
  shows "group_commits commits [] =
           Inr (map (\<lambda>k. (k, filter (\<lambda>c. commit_day c = Inr k) commits)) (first_appearances ks)) \<and>
         (\<forall>c t. c \<in> set commits \<and> Date_of_ai (date c) = Some t \<and>
                0 \<le> YearFromTime t \<and> YearFromTime t \<le> 9999 \<longrightarrow>
            (\<exists>iso. toISOString (Some t) = Inr iso \<and> commit_day c = Inr (take 10 iso) \<and>
                   take 10 iso = utc_date_text t))"
proof (intro conjI allI impI)
  show "group_commits commits [] =
      Inr (map (\<lambda>k. (k, filter (\<lambda>c. commit_day c = Inr k) commits)) (first_appearances ks))"
    using group_commits_day_buckets [OF assms] by (simp add: day_buckets_def)
next
  fix c t
  assume a: "c \<in> set commits \<and> Date_of_ai (date c) = Some t \<and>
                0 \<le> YearFromTime t \<and> YearFromTime t \<le> 9999"
  then have y: "0 \<le> YearFromTime t" "YearFromTime t \<le> 9999" by simp_all
  from y obtain iso where i: "toISOString (Some t) = Inr iso" "split_T_0 iso = utc_date_text t"
    "take 10 iso = utc_date_text t" by (rule iso_date_part)
  from a i have "commit_day c = Inr (take 10 iso)" by (simp add: commit_day_def)
  with i show "\<exists>iso. toISOString (Some t) = Inr iso \<and> commit_day c = Inr (take 10 iso) \<and>
                   take 10 iso = utc_date_text t" by blast
qed

theorem grouping_by_utc_day_witness:
  "group_commits sample_commits [] =
     Inr [(js ''2024-01-03'', [sample_commit ''aaaaaaaa11'' 3 12 ''one'', sample_commit ''cccccccc33'' 4 5 ''three'']),
          (js ''2024-01-02'', [sample_commit ''bbbbbbbb22'' 2 15 ''two''])] \<and>
   commit_day (sample_commit ''cccccccc33'' 4 5 ''three'') = Inr (take 10 (js ''2024-01-03T20:00:00.000Z''))"
proof -
  let ?c = "sample_commit ''cccccccc33'' 4 5 ''three''"
  note g = grouping_by_utc_day [OF sample_days]
  have d12: "js ''2024-01-02'' \<noteq> js ''2024-01-03''" by (simp add: js_def)
  have fa: "first_appearances [js ''2024-01-03'', js ''2024-01-02'', js ''2024-01-03''] =
      [js ''2024-01-03'', js ''2024-01-02'']"
    using d12 by (simp add: first_appearances_def)
  have 1: "group_commits sample_commits [] =
     Inr [(js ''2024-01-03'', [sample_commit ''aaaaaaaa11'' 3 12 ''one'', ?c]),
          (js ''2024-01-02'', [sample_commit ''bbbbbbbb22'' 2 15 ''two''])]"
    using g [THEN conjunct1] d12
    by (simp add: fa sample_commits_def sample_day_1 sample_day_2 sample_day_3)
  have t: "Date_of_ai (date ?c) = Some 1704312000000" by code_simp
  have y: "YearFromTime 1704312000000 = 2024" by code_simp
  have iso: "toISOString (Some 1704312000000) = Inr (js ''2024-01-03T20:00:00.000Z'')" by code_simp
  have "?c \<in> set sample_commits" by (simp add: sample_commits_def)
  with g [THEN conjunct2, rule_format, of ?c 1704312000000] t y iso
  have 2: "commit_day ?c = Inr (take 10 (js ''2024-01-03T20:00:00.000Z''))" by auto
  from 1 2 show ?thesis by (rule conjI)
qed

text \<open>
  C6. When grouping gives buckets, the sizes of the buckets add up to the length of the list,
  the commits of the buckets are the commits of the list, each as often as the list has it, no
  bucket is empty, and no day has two buckets.
\<close>

theorem grouping_is_partition:
  assumes "group_commits commits [] = Inr bs"
  shows "(\<Sum>b\<leftarrow>bs. length (snd b)) = length commits \<and>
         mset (concat (map snd bs)) = mset commits \<and>
         list_all (\<lambda>b. snd b \<noteq> []) bs \<and> distinct (map fst bs)"
  using group_commits_sizes [OF assms] group_commits_mset [OF assms]
    group_commits_nonempty [OF assms] group_commits_distinct [OF assms]
  by simp

theorem grouping_is_partition_witness:
  "group_commits sample_commits [] = Inr sample_buckets \<and>
   (\<Sum>b\<leftarrow>sample_buckets. length (snd b)) = 3 \<and> length sample_commits = 3 \<and>
   mset (concat (map snd sample_buckets)) = mset sample_commits \<and>
   list_all (\<lambda>b. snd b \<noteq> []) sample_buckets \<and> distinct (map fst sample_buckets)"
  using grouping_is_partition [OF sample_grouping] sample_grouping
  by (simp add: sample_commits_def)

subsection \<open>The order of the days\<close>

text \<open>
  C10. In a run that reaches the days, the reports are written in the order in which the
  days appear first in the list of commits, one write for each day, to the path of that day:
  the paths of the writes of the run, in order, are the paths of the days in their order of
  first appearance. This order is a function of the list, and need not be the order of the
  calendar.
\<close>

theorem reports_in_order_of_first_appearance:
  assumes "window_check (tza h) (startDate a) (endDate a) = None"
    and "git_log h (logOptions a) (outside st) = (Inr commits, x)"
    and "commits \<noteq> []"
    and "map commit_day commits = map Inr ks"
  shows "group_commits commits [] = Inr (day_buckets ks commits) \<and>
         map fst (day_buckets ks commits) = first_appearances ks \<and>
         map fst (writes_of (trace (main h a st))) =
           map fst (writes_of (trace st)) @
           map (\<lambda>d. path_join h (gitPath a) (js ''commit-report-'' @ d @ js ''.md'')) (first_appearances ks)"
proof -
  note g = group_commits_day_buckets [OF assms(4)]
  have k: "map fst (day_buckets ks commits) = first_appearances ks"
    by (simp add: day_buckets_def comp_def)
  have "map fst (writes_of (trace (main h a st))) =
      map fst (writes_of (trace st)) @ map (\<lambda>b. report_path h a (fst b)) (day_buckets ks commits)"
    by (simp add: main_run_writes [OF assms(1-3) g] reports_paths)
  also have "map (\<lambda>b. report_path h a (fst b)) (day_buckets ks commits) =
      map (report_path h a) (map fst (day_buckets ks commits))" by (simp add: comp_def)
  finally show ?thesis using g k by (simp add: report_path_def report_file_name_def)
qed

theorem reports_in_order_of_first_appearance_witness:
  "map fst (writes_of (trace (main sample_host sample_answers sample_state))) =
     [js ''repo/commit-report-2024-01-03.md'', js ''repo/commit-report-2024-01-02.md'']"
proof -
  note t = reports_in_order_of_first_appearance [OF sample_window_host sample_git_log
      sample_commits_nonempty sample_days, THEN conjunct2, THEN conjunct2]
  have p: "path_join sample_host (gitPath sample_answers) f = js ''repo/'' @ f" for f
    by (simp add: sample_host_def sample_answers_def js_def)
  have tr: "trace sample_state = []" by (simp add: sample_state_def)
  show ?thesis unfolding t sample_first_appearances p tr by (simp add: js_def)
qed

subsection \<open>The body of a report\<close>

text \<open>
  C2, as the program has it. The loop over the commits of a day, begun with the title and the
  count, builds the assembler's text for the day, its commits and their results, one result
  for each commit; this text is what the day writes to its file. The text is a function of the
  day, the commits and the results alone. It is the title line, "# " and the day and the words
  for "commit report", and an empty line; the count line, the words for "n commits in all", and
  an empty line; and then one entry for each commit in the order of the bucket. The entry of a
  commit that was summarized is the heading "## ", the word for "commit", its number, a colon
  and the first seven characters of its hash; the line "**message**: " with its subject, and an
  empty line; the line "### AI summary", the summary, and an empty line; and the separator
  "---" with an empty line. The entry of a commit that failed is the heading with the mark
  " (error occurred)" after the hash, and the line "**error**: " with the message of the error,
  and an empty line; it has no line with the subject and no separator. (The words are Korean
  in the program; they are given here by their code units.)
\<close>

theorem report_body_format:
  "commit_loop h 0 cs (report_title d @ report_count (length cs), st) =
     (assemble d cs (fst (summarize_all h cs st)), snd (summarize_all h cs st)) \<and>
   length (fst (summarize_all h cs st)) = length cs \<and>
   writes_of (trace (process_day h a (d, cs) st)) =
     writes_of (trace st) @
     [(path_join h (gitPath a) (js ''commit-report-'' @ d @ js ''.md''),
       assemble d cs (day_results h (d, cs) st))] \<and>
   length (day_results h (d, cs) st) = length cs \<and>
   (length rs = length cs \<longrightarrow>
      assemble d cs rs =
        (js ''# '' @ d @ js '' '' @ [0xCEE4, 0xBC0B] @ js '' '' @ [0xB9AC, 0xD3EC, 0xD2B8, 0x0A, 0x0A]) @
        ([0xCD1D] @ js '' '' @ dec (length cs) @ [0xAC1C, 0xC758] @ js '' '' @ [0xCEE4, 0xBC0B, 0x0A, 0x0A]) @
        concat (map (\<lambda>(i, c, r).
            case r of
              Inr s \<Rightarrow>
                js ''## '' @ [0xCEE4, 0xBC0B] @ js '' '' @ dec (i + 1) @ js '': '' @ take 7 (hash c) @ [0x0A] @
                js ''**'' @ [0xBA54, 0xC2DC, 0xC9C0] @ js ''**: '' @ subject c @ [0x0A, 0x0A] @
                js ''### AI '' @ [0xC694, 0xC57D, 0x0A] @ s @ [0x0A, 0x0A] @
                js ''---'' @ [0x0A, 0x0A]
            | Inl e \<Rightarrow>
                js ''## '' @ [0xCEE4, 0xBC0B] @ js '' '' @ dec (i + 1) @ js '': '' @ take 7 (hash c) @
                js '' ('' @ [0xC624, 0xB958] @ js '' '' @ [0xBC1C, 0xC0DD] @ js '')'' @ [0x0A] @
                js ''**'' @ [0xC624, 0xB958] @ js ''**: '' @ message e @ [0x0A, 0x0A])
          (zip [0..<length cs] (zip cs rs))))"
proof (intro conjI impI)
  show "commit_loop h 0 cs (report_title d @ report_count (length cs), st) =
     (assemble d cs (fst (summarize_all h cs st)), snd (summarize_all h cs st))"
    by (simp add: commit_loop_assemble assemble_def)
  show "length (fst (summarize_all h cs st)) = length cs"
    by (rule length_summarize_all)
  show "writes_of (trace (process_day h a (d, cs) st)) =
     writes_of (trace st) @
     [(path_join h (gitPath a) (js ''commit-report-'' @ d @ js ''.md''),
       assemble d cs (day_results h (d, cs) st))]"
    by (simp add: process_day_writes report_path_def report_file_name_def)
  show "length (day_results h (d, cs) st) = length cs"
    by (simp add: length_day_results)
qed (rule assemble_text)

theorem report_body_format_witness:
  "fst (commit_loop sample_host 0
     [sample_commit ''aaaaaaaa11'' 3 12 ''one'', sample_commit ''cccccccc33'' 4 5 ''three'']
     (report_title (js ''2024-01-03'') @ report_count 2, sample_state\<lparr>outside := 1\<rparr>)) =
     [35, 32, 50, 48, 50, 52, 45, 48, 49, 45, 48, 51, 32, 52964, 48139, 32, 47532, 54252, 53944,
      10, 10, 52509, 32, 50, 44060, 51032, 32, 52964, 48139, 10, 10, 35, 35, 32, 52964, 48139,
      32, 49, 58, 32, 97, 97, 97, 97, 97, 97, 97, 10, 42, 42, 47700, 49884, 51648, 42, 42, 58,
      32, 111, 110, 101, 10, 10, 35, 35, 35, 32, 65, 73, 32, 50836, 50557, 10, 111, 107, 10, 10,
      45, 45, 45, 10, 10, 35, 35, 32, 52964, 48139, 32, 50, 58, 32, 99, 99, 99, 99, 99, 99, 99,
      32, 40, 50724, 47448, 32, 48156, 49373, 41, 10, 42, 42, 50724, 47448, 42, 42, 58, 32, 98,
      97, 100, 10, 10] \<and>
   writes_of (trace (process_day sample_host sample_answers
     (js ''2024-01-03'', [sample_commit ''aaaaaaaa11'' 3 12 ''one'', sample_commit ''cccccccc33'' 4 5 ''three''])
     (sample_state\<lparr>outside := 1\<rparr>))) =
     [(js ''repo/commit-report-2024-01-03.md'',
       [35, 32, 50, 48, 50, 52, 45, 48, 49, 45, 48, 51, 32, 52964, 48139, 32, 47532, 54252,
        53944, 10, 10, 52509, 32, 50, 44060, 51032, 32, 52964, 48139, 10, 10, 35, 35, 32, 52964,
        48139, 32, 49, 58, 32, 97, 97, 97, 97, 97, 97, 97, 10, 42, 42, 47700, 49884, 51648, 42,
        42, 58, 32, 111, 110, 101, 10, 10, 35, 35, 35, 32, 65, 73, 32, 50836, 50557, 10, 111,
        107, 10, 10, 45, 45, 45, 10, 10, 35, 35, 32, 52964, 48139, 32, 50, 58, 32, 99, 99, 99,
        99, 99, 99, 99, 32, 40, 50724, 47448, 32, 48156, 49373, 41, 10, 42, 42, 50724, 47448, 42,
        42, 58, 32, 98, 97, 100, 10, 10])]"
proof -
  let ?cs = "[sample_commit ''aaaaaaaa11'' 3 12 ''one'', sample_commit ''cccccccc33'' 4 5 ''three'']"
  let ?rs = "[Inr (js ''ok''), Inl (Error (js ''bad''))]"
  let ?st = "sample_state\<lparr>outside := 1\<rparr>"
  let ?text = "[35, 32, 50, 48, 50, 52, 45, 48, 49, 45, 48, 51, 32, 52964, 48139, 32, 47532,
                54252, 53944, 10, 10, 52509, 32, 50, 44060, 51032, 32, 52964, 48139, 10, 10, 35,
                35, 32, 52964, 48139, 32, 49, 58, 32, 97, 97, 97, 97, 97, 97, 97, 10, 42, 42,
                47700, 49884, 51648, 42, 42, 58, 32, 111, 110, 101, 10, 10, 35, 35, 35, 32, 65,
                73, 32, 50836, 50557, 10, 111, 107, 10, 10, 45, 45, 45, 10, 10, 35, 35, 32,
                52964, 48139, 32, 50, 58, 32, 99, 99, 99, 99, 99, 99, 99, 32, 40, 50724, 47448,
                32, 48156, 49373, 41, 10, 42, 42, 50724, 47448, 42, 42, 58, 32, 98, 97, 100, 10,
                10]"
  have l: "length ?rs = length ?cs" by simp
  have n: "length ?cs = 2" by simp
  have u: "[0..<2] = [0, 1::nat]" by (simp add: upt_conv_Cons)
  have r: "fst (summarize_all sample_host ?cs ?st) = ?rs"
    by (subst sample_day_one_loop) simp
  have dr: "day_results sample_host (js ''2024-01-03'', ?cs) ?st = ?rs"
    by (rule sample_day_one_results) simp
  have w: "writes_of (trace ?st) = []" by (simp add: sample_state_def)
  have p: "path_join sample_host (gitPath sample_answers) (js ''commit-report-'' @ js ''2024-01-03'' @ js ''.md'') =
      js ''repo/commit-report-2024-01-03.md''"
    by (simp add: sample_host_fields sample_answers_def js_def)
  note f = report_body_format [where cs = ?cs and rs = ?rs and d = "js ''2024-01-03''"
      and h = sample_host and st = ?st and a = sample_answers]
  note f1 = f [THEN conjunct1, unfolded r n]
  note f2 = f [THEN conjunct2, THEN conjunct2, THEN conjunct1, unfolded dr w p]
  note f3 = f [THEN conjunct2, THEN conjunct2, THEN conjunct2, THEN conjunct2, rule_format, OF l,
      unfolded n u]
  have a: "assemble (js ''2024-01-03'') ?cs ?rs = ?text"
    unfolding f3 by (simp add: js_def sample_commit_def dec.simps)
  have 1: "fst (commit_loop sample_host 0 ?cs
     (report_title (js ''2024-01-03'') @ report_count 2, ?st)) = ?text"
    by (simp only: f1 fst_conv a)
  have 2: "writes_of (trace (process_day sample_host sample_answers (js ''2024-01-03'', ?cs) ?st)) =
     [(js ''repo/commit-report-2024-01-03.md'', ?text)]"
    unfolding f2 a by simp
  from 1 2 show ?thesis by (rule conjI)
qed

text \<open>
  C2 as stated fails for a commit whose summary failed: its entry has neither the subject
  line nor the separator. Here the one commit of a day fails (the text of the commit cannot
  be had), and neither its subject nor three dashes occur in the report of that day.
\<close>

theorem report_body_error_entry_counterexample:
  "\<not> contains (js ''three'')
       (fst (commit_loop sample_host 0 [sample_commit ''cccccccc33'' 4 5 ''three'']
          (report_title (js ''2024-01-03'') @ report_count 1, sample_state\<lparr>outside := 3\<rparr>))) \<and>
   \<not> contains (js ''---'')
       (fst (commit_loop sample_host 0 [sample_commit ''cccccccc33'' 4 5 ''three'']
          (report_title (js ''2024-01-03'') @ report_count 1, sample_state\<lparr>outside := 3\<rparr>)))"
  unfolding sample_error_loop sample_error_report by (simp add: js_def)

subsection \<open>One file for each day\<close>

text \<open>
  C7. The report of a day goes to the file whose name is made of the day,
  \<^verbatim>\<open>commit-report-<day>.md\<close>, joined to the path of the repository. The commits of the day
  are gone through without any change to the files, and then the report is written once. When
  the write succeeds, the file at that path holds the report, whatever it held before, and the
  path and the day are printed. When the write fails, the files are as they were and the error
  is printed with that day. In both cases the loop goes on with the days that remain: the
  writes of the loop, in order, are one for each day, to the path of that day, whichever of
  them fail.
\<close>

theorem per_date_write:
  "report_path h a d = path_join h (gitPath a) (js ''commit-report-'' @ d @ js ''.md'') \<and>
   (let st2 = snd (summarize_all h (snd b) (day_start b st));
        rep = assemble (fst b) (snd b) (day_results h b st);
        p = report_path h a (fst b)
    in files st2 = files st \<and>
       (\<forall>x. write_fault h p rep (outside st2) = (None, x) \<longrightarrow>
          process_day h a b st =
            st2\<lparr>files := (files st)(p \<mapsto> rep), outside := x,
                trace := trace st2 @ [WriteFile p rep, ConsoleLog (msg_saved (fst b) p)]\<rparr>) \<and>
       (\<forall>e x. write_fault h p rep (outside st2) = (Some e, x) \<longrightarrow>
          process_day h a b st =
            st2\<lparr>outside := x,
                trace := trace st2 @ [WriteFile p rep, ConsoleError (msg_save_error (fst b)) (Some e)]\<rparr>)) \<and>
   day_loop h a (b # bs) st = day_loop h a bs (process_day h a b st) \<and>
   map fst (writes_of (trace (day_loop h a bs st))) =
     map fst (writes_of (trace st)) @ map (\<lambda>b. report_path h a (fst b)) bs"
proof (intro conjI)
  show "report_path h a d = path_join h (gitPath a) (js ''commit-report-'' @ d @ js ''.md'')"
    by (simp add: report_path_def report_file_name_def)
  have f: "files (snd (summarize_all h (snd b) (day_start b st))) = files st"
    using summarize_all_frame [of h "snd b" "day_start b st"]
    by (simp add: day_start_def console_simps)
  show "let st2 = snd (summarize_all h (snd b) (day_start b st));
        rep = assemble (fst b) (snd b) (day_results h b st);
        p = report_path h a (fst b)
    in files st2 = files st \<and>
       (\<forall>x. write_fault h p rep (outside st2) = (None, x) \<longrightarrow>
          process_day h a b st =
            st2\<lparr>files := (files st)(p \<mapsto> rep), outside := x,
                trace := trace st2 @ [WriteFile p rep, ConsoleLog (msg_saved (fst b) p)]\<rparr>) \<and>
       (\<forall>e x. write_fault h p rep (outside st2) = (Some e, x) \<longrightarrow>
          process_day h a b st =
            st2\<lparr>outside := x,
                trace := trace st2 @ [WriteFile p rep, ConsoleError (msg_save_error (fst b)) (Some e)]\<rparr>)"
    unfolding Let_def using f by (simp add: process_day_eq Let_def)
  show "day_loop h a (b # bs) st = day_loop h a bs (process_day h a b st)" by simp
  show "map fst (writes_of (trace (day_loop h a bs st))) =
     map fst (writes_of (trace st)) @ map (\<lambda>b. report_path h a (fst b)) bs"
    by (simp add: day_loop_writes reports_paths)
qed

theorem per_date_write_witness:
  "files (process_day sample_host sample_answers
            (js ''2024-01-02'', [sample_commit ''bbbbbbbb22'' 2 15 ''two''])
            (sample_state\<lparr>files := [js ''repo/commit-report-2024-01-02.md'' \<mapsto> js ''old'']\<rparr>))
     (js ''repo/commit-report-2024-01-02.md'') =
     Some (assemble (js ''2024-01-02'') [sample_commit ''bbbbbbbb22'' 2 15 ''two''] [Inr (js ''ok'')]) \<and>
   files (process_day sample_host sample_answers
            (js ''2024-01-02'', [sample_commit ''bbbbbbbb22'' 2 15 ''two''])
            (sample_state\<lparr>files := [js ''repo/commit-report-2024-01-02.md'' \<mapsto> js ''old''],
                            outside := 2\<rparr>))
     (js ''repo/commit-report-2024-01-02.md'') = Some (js ''old'')"
proof -
  let ?c = "sample_commit ''bbbbbbbb22'' 2 15 ''two''"
  let ?b = "(js ''2024-01-02'', [?c])"
  let ?P = "js ''repo/commit-report-2024-01-02.md''"
  let ?S = "sample_state\<lparr>files := [?P \<mapsto> js ''old'']\<rparr>"
  let ?S2 = "sample_state\<lparr>files := [?P \<mapsto> js ''old''], outside := 2\<rparr>"
  have o: "outside ?S \<noteq> 3" "outside ?S2 \<noteq> 3" by (simp_all add: sample_state_def)
  note d1 = sample_day_two [OF o(1)]
  note d2 = sample_day_two [OF o(2)]
  have w1: "write_fault sample_host ?P rep (outside (snd (summarize_all sample_host [?c] (day_start ?b ?S)))) =
      (None, 3)" for rep
    by (simp only: d1(2)) (simp add: sample_host_fields sample_state_def)
  have w2: "write_fault sample_host ?P rep (outside (snd (summarize_all sample_host [?c] (day_start ?b ?S2)))) =
      (Some (Error (js ''EACCES'')), 5)" for rep
    by (simp only: d2(2)) (simp add: sample_host_fields sample_state_def)
  note t1 = per_date_write [where h = sample_host and a = sample_answers and b = ?b and st = ?S
      and d = "js ''2024-01-02''" and bs = "[]", THEN conjunct2, THEN conjunct1, unfolded Let_def]
  note t2 = per_date_write [where h = sample_host and a = sample_answers and b = ?b and st = ?S2
      and d = "js ''2024-01-02''" and bs = "[]", THEN conjunct2, THEN conjunct1, unfolded Let_def]
  from t1 have "process_day sample_host sample_answers ?b ?S =
      (snd (summarize_all sample_host [?c] (day_start ?b ?S)))
        \<lparr>files := (files ?S)(?P \<mapsto> assemble (js ''2024-01-02'') [?c] [Inr (js ''ok'')]), outside := 3,
         trace := trace (snd (summarize_all sample_host [?c] (day_start ?b ?S))) @
           [WriteFile ?P (assemble (js ''2024-01-02'') [?c] [Inr (js ''ok'')]),
            ConsoleLog (msg_saved (js ''2024-01-02'') ?P)]\<rparr>"
    unfolding d1(1) sample_report_path fst_conv snd_conv w1 by simp
  then have 1: "files (process_day sample_host sample_answers ?b ?S) ?P =
      Some (assemble (js ''2024-01-02'') [?c] [Inr (js ''ok'')])" by simp
  from t2 have "process_day sample_host sample_answers ?b ?S2 =
      (snd (summarize_all sample_host [?c] (day_start ?b ?S2)))
        \<lparr>outside := 5,
         trace := trace (snd (summarize_all sample_host [?c] (day_start ?b ?S2))) @
           [WriteFile ?P (assemble (js ''2024-01-02'') [?c] [Inr (js ''ok'')]),
            ConsoleError (msg_save_error (js ''2024-01-02'')) (Some (Error (js ''EACCES'')))]\<rparr>"
    unfolding d2(1) sample_report_path fst_conv snd_conv w2 by simp
  then have "files (process_day sample_host sample_answers ?b ?S2) =
      files (snd (summarize_all sample_host [?c] (day_start ?b ?S2)))" by simp
  also from t2 have "\<dots> = files ?S2" unfolding snd_conv by (rule conjunct1)
  finally have 2: "files (process_day sample_host sample_answers ?b ?S2) ?P = Some (js ''old'')"
    by simp
  from 1 2 show ?thesis by (rule conjI)
qed

subsection \<open>A failure stays with its commit\<close>

text \<open>
  C1. One commit. The two calls for a commit give an error when the text of the commit cannot
  be had (the error of \<^verbatim>\<open>show\<close>), when the key of the service is missing, when the call of the
  service throws (its error), and when the answer of the service has no text or white space
  only; they give the summary, the trimmed answer, when both calls answer and the answer has
  text. Nothing is thrown further: a failure is a result.

  One day. The loop over the commits of a day goes through all of them, whatever fails. To
  the text it began with it adds one entry for each commit, in order: for a result that is an
  error, the heading with the number of the commit, the first seven characters of its hash and
  the mark that an error occurred, and the line with the message of the error; for a summary,
  the heading, the line with the subject, the section with the summary, and the separator. The
  results are as many as the commits, and result \<open>i\<close> is that of the two calls for commit \<open>i\<close>, made
  in the state in which the loop over the commits before it ended. The errors that the loop
  prints are those of the commits that failed, in order, each with the line that names the
  hash of its commit.

  The run. Take a run whose window passes, whose log lists \<open>N\<close> commits, at least one, and whose
  commits all have a day. It ends with its two closing lines. Its writes are one report for
  each day, in the order of the days: the title, the count, and the entries of the commits of
  the day. The results of a day are as many as its commits, and all results together are \<open>N\<close>:
  the \<open>k\<close> that are errors and the \<open>N - k\<close> that are summaries. The results of day \<open>j\<close> are those
  of its commits, gone through in the state in which the days before it ended.
\<close>

theorem failure_isolation:
  assumes "window_check (tza h) (startDate a) (endDate a) = None"
    and "git_log h (logOptions a) (outside st) = (Inr commits, x)"
    and "commits \<noteq> []"
    and "group_commits commits [] = Inr bs"
  shows
   "(git_show h (show_args c) (outside sc) = (Inl e, x1) \<longrightarrow>
       fst (summarize_commit h c sc) = Inl e) \<and>
    (git_show h (show_args c) (outside sc) = (Inr t, x1) \<and>
     (OPENAI_API_KEY h = None \<or> OPENAI_API_KEY h = Some []) \<longrightarrow>
       fst (summarize_commit h c sc) = Inl (Error err_api_key)) \<and>
    (git_show h (show_args c) (outside sc) = (Inr t, x1) \<and>
     OPENAI_API_KEY h = Some k \<and> k \<noteq> [] \<and>
     chat_create h (build_request h (summary_instruction @ t) no_options) x1 = (Inl e, x2) \<longrightarrow>
       fst (summarize_commit h c sc) = Inl e) \<and>
    (git_show h (show_args c) (outside sc) = (Inr t, x1) \<and>
     OPENAI_API_KEY h = Some k \<and> k \<noteq> [] \<and>
     chat_create h (build_request h (summary_instruction @ t) no_options) x1 = (Inr completion, x2) \<and>
     (completion_text completion = None \<or> completion_text completion = Some []) \<longrightarrow>
       fst (summarize_commit h c sc) = Inl (Error err_no_text)) \<and>
    (git_show h (show_args c) (outside sc) = (Inr t, x1) \<and>
     OPENAI_API_KEY h = Some k \<and> k \<noteq> [] \<and>
     chat_create h (build_request h (summary_instruction @ t) no_options) x1 = (Inr completion, x2) \<and>
     completion_text completion = Some reply \<and> reply \<noteq> [] \<longrightarrow>
       fst (summarize_commit h c sc) = Inr reply) \<and>
    fst (commit_loop h 0 cs (rep, sd)) =
      rep @ concat (map (\<lambda>(i, c, r).
                        case r of
                          Inr s \<Rightarrow>
                            js ''## '' @ [0xCEE4, 0xBC0B] @ js '' '' @ dec (i + 1) @ js '': '' @ take 7 (hash c) @ [0x0A] @
                            js ''**'' @ [0xBA54, 0xC2DC, 0xC9C0] @ js ''**: '' @ subject c @ [0x0A, 0x0A] @
                            js ''### AI '' @ [0xC694, 0xC57D, 0x0A] @ s @ [0x0A, 0x0A] @
                            js ''---'' @ [0x0A, 0x0A]
                        | Inl e \<Rightarrow>
                            js ''## '' @ [0xCEE4, 0xBC0B] @ js '' '' @ dec (i + 1) @ js '': '' @ take 7 (hash c) @
                            js '' ('' @ [0xC624, 0xB958] @ js '' '' @ [0xBC1C, 0xC0DD] @ js '')'' @ [0x0A] @
                            js ''**'' @ [0xC624, 0xB958] @ js ''**: '' @ message e @ [0x0A, 0x0A])
        (zip [0..<length cs] (zip cs (fst (summarize_all h cs sd))))) \<and>
    length (fst (summarize_all h cs sd)) = length cs \<and>
    (\<forall>i<length cs.
        fst (summarize_all h cs sd) ! i =
          fst (summarize_commit h (cs ! i)
                (console_log (msg_processing (cs ! i)) (snd (commit_loop h 0 (take i cs) (rep, sd)))))) \<and>
    errors_of (trace (snd (commit_loop h 0 cs (rep, sd)))) =
      errors_of (trace sd) @
      concat (map (\<lambda>(c, r).
          case r of
            Inl e \<Rightarrow>
              [([0xCEE4, 0xBC0B] @ js '' '' @ hash c @ js '' '' @ [0xCC98, 0xB9AC] @ js '' '' @ [0xC911] @
                js '' '' @ [0xC624, 0xB958] @ js '':'', e)]
          | Inr s \<Rightarrow> [])
        (zip cs (fst (summarize_all h cs sd)))) \<and>
    (let st0 = run_start a commits x st; rss = run_results h a bs st0 in
       trace (main h a st) =
         trace (day_loop h a bs st0) @ [ConsoleLog msg_all_done, ConsoleLog msg_files_created] \<and>
       writes_of (trace (main h a st)) =
         writes_of (trace st) @
         map (\<lambda>(b, rs).
            (path_join h (gitPath a) (js ''commit-report-'' @ fst b @ js ''.md''),
             (js ''# '' @ fst b @ js '' '' @ [0xCEE4, 0xBC0B] @ js '' '' @ [0xB9AC, 0xD3EC, 0xD2B8, 0x0A, 0x0A]) @
             ([0xCD1D] @ js '' '' @ dec (length (snd b)) @ [0xAC1C, 0xC758] @ js '' '' @
                [0xCEE4, 0xBC0B, 0x0A, 0x0A]) @
             concat (map (\<lambda>(i, c, r).
                          case r of
                            Inr s \<Rightarrow>
                              js ''## '' @ [0xCEE4, 0xBC0B] @ js '' '' @ dec (i + 1) @ js '': '' @ take 7 (hash c) @ [0x0A] @
                              js ''**'' @ [0xBA54, 0xC2DC, 0xC9C0] @ js ''**: '' @ subject c @ [0x0A, 0x0A] @
                              js ''### AI '' @ [0xC694, 0xC57D, 0x0A] @ s @ [0x0A, 0x0A] @
                              js ''---'' @ [0x0A, 0x0A]
                          | Inl e \<Rightarrow>
                              js ''## '' @ [0xCEE4, 0xBC0B] @ js '' '' @ dec (i + 1) @ js '': '' @ take 7 (hash c) @
                              js '' ('' @ [0xC624, 0xB958] @ js '' '' @ [0xBC1C, 0xC0DD] @ js '')'' @ [0x0A] @
                              js ''**'' @ [0xC624, 0xB958] @ js ''**: '' @ message e @ [0x0A, 0x0A])
               (zip [0..<length (snd b)] (zip (snd b) rs)))))
           (zip bs rss) \<and>
       map length rss = map (\<lambda>b. length (snd b)) bs \<and>
       length (concat rss) = length commits \<and>
       length (filter isl (concat rss)) + length (filter (\<lambda>r. \<not> isl r) (concat rss)) = length commits \<and>
       (\<forall>j<length bs.
           rss ! j =
             fst (summarize_all h (snd (bs ! j))
                   (console_log (msg_day_header (fst (bs ! j)) (length (snd (bs ! j))))
                      (day_loop h a (take j bs) st0)))))"
proof -
  let ?st0 = "run_start a commits x st"
  let ?rss = "run_results h a bs ?st0"
  note r = summarize_commit_result [of h c sc]
  have a1: "git_show h (show_args c) (outside sc) = (Inl e, x1) \<longrightarrow>
       fst (summarize_commit h c sc) = Inl e"
    by (simp add: r)
  have a2: "git_show h (show_args c) (outside sc) = (Inr t, x1) \<and>
     (OPENAI_API_KEY h = None \<or> OPENAI_API_KEY h = Some []) \<longrightarrow>
       fst (summarize_commit h c sc) = Inl (Error err_api_key)"
    by (auto simp: r)
  have a3: "git_show h (show_args c) (outside sc) = (Inr t, x1) \<and>
     OPENAI_API_KEY h = Some k \<and> k \<noteq> [] \<and>
     chat_create h (build_request h (summary_instruction @ t) no_options) x1 = (Inl e, x2) \<longrightarrow>
       fst (summarize_commit h c sc) = Inl e"
    by (simp add: r)
  have a4: "git_show h (show_args c) (outside sc) = (Inr t, x1) \<and>
     OPENAI_API_KEY h = Some k \<and> k \<noteq> [] \<and>
     chat_create h (build_request h (summary_instruction @ t) no_options) x1 = (Inr completion, x2) \<and>
     (completion_text completion = None \<or> completion_text completion = Some []) \<longrightarrow>
       fst (summarize_commit h c sc) = Inl (Error err_no_text)"
    by (auto simp: r)
  have a5: "git_show h (show_args c) (outside sc) = (Inr t, x1) \<and>
     OPENAI_API_KEY h = Some k \<and> k \<noteq> [] \<and>
     chat_create h (build_request h (summary_instruction @ t) no_options) x1 = (Inr completion, x2) \<and>
     completion_text completion = Some reply \<and> reply \<noteq> [] \<longrightarrow>
       fst (summarize_commit h c sc) = Inr reply"
    by (simp add: r)
  note b1 = commit_loop_text [of h cs rep sd]
  have b2: "length (fst (summarize_all h cs sd)) = length cs" by (rule length_summarize_all)
  have b3: "\<forall>i<length cs.
        fst (summarize_all h cs sd) ! i =
          fst (summarize_commit h (cs ! i)
                (console_log (msg_processing (cs ! i)) (snd (commit_loop h 0 (take i cs) (rep, sd)))))"
    by (simp add: summarize_all_nth commit_loop_state)
  note b4 = commit_loop_errors [of h cs rep sd]
  have 1: "trace (main h a st) =
      trace (day_loop h a bs ?st0) @ [ConsoleLog msg_all_done, ConsoleLog msg_files_created]"
    by (simp add: main_run [OF assms] console_simps)
  have 3: "map length ?rss = map (\<lambda>b. length (snd b)) bs" by (rule run_results_lengths)
  have l: "length ?rss = length bs" by (rule length_run_results)
  have 2: "writes_of (trace (main h a st)) =
         writes_of (trace st) @
         map (\<lambda>(b, rs).
            (path_join h (gitPath a) (js ''commit-report-'' @ fst b @ js ''.md''),
             (js ''# '' @ fst b @ js '' '' @ [0xCEE4, 0xBC0B] @ js '' '' @ [0xB9AC, 0xD3EC, 0xD2B8, 0x0A, 0x0A]) @
             ([0xCD1D] @ js '' '' @ dec (length (snd b)) @ [0xAC1C, 0xC758] @ js '' '' @
                [0xCEE4, 0xBC0B, 0x0A, 0x0A]) @
             concat (map (\<lambda>(i, c, r).
                          case r of
                            Inr s \<Rightarrow>
                              js ''## '' @ [0xCEE4, 0xBC0B] @ js '' '' @ dec (i + 1) @ js '': '' @ take 7 (hash c) @ [0x0A] @
                              js ''**'' @ [0xBA54, 0xC2DC, 0xC9C0] @ js ''**: '' @ subject c @ [0x0A, 0x0A] @
                              js ''### AI '' @ [0xC694, 0xC57D, 0x0A] @ s @ [0x0A, 0x0A] @
                              js ''---'' @ [0x0A, 0x0A]
                          | Inl e \<Rightarrow>
                              js ''## '' @ [0xCEE4, 0xBC0B] @ js '' '' @ dec (i + 1) @ js '': '' @ take 7 (hash c) @
                              js '' ('' @ [0xC624, 0xB958] @ js '' '' @ [0xBC1C, 0xC0DD] @ js '')'' @ [0x0A] @
                              js ''**'' @ [0xC624, 0xB958] @ js ''**: '' @ message e @ [0x0A, 0x0A])
               (zip [0..<length (snd b)] (zip (snd b) rs)))))
           (zip bs ?rss)"
    unfolding main_run_writes [OF assms] reports_text [OF l 3] ..
  have 4: "length (concat ?rss) = length commits"
    using assms(4) by (rule length_concat_run_results)
  have 5: "length (filter isl (concat ?rss)) + length (filter (\<lambda>r. \<not> isl r) (concat ?rss)) =
      length commits"
    using filter_isl_split [of "concat ?rss"] 4 by simp
  have 6: "\<forall>j<length bs.
           ?rss ! j =
             fst (summarize_all h (snd (bs ! j))
                   (console_log (msg_day_header (fst (bs ! j)) (length (snd (bs ! j))))
                      (day_loop h a (take j bs) ?st0)))"
    by (simp add: run_results_nth day_results_def day_start_def)
  from a1 a2 a3 a4 a5 b1 b2 b3 b4 1 2 3 4 5 6 show ?thesis unfolding Let_def by (intro conjI)
qed


theorem failure_isolation_witness:
  "fst (summarize_commit fault_host (sample_commit ''cccccccc33'' 4 5 ''three'')
          (sample_state\<lparr>outside := 3\<rparr>)) = Inl (Error (js ''bad'')) \<and>
   fst (summarize_commit (fault_host\<lparr>OPENAI_API_KEY := None\<rparr>) (sample_commit ''aaaaaaaa11'' 3 12 ''one'')
          (sample_state\<lparr>outside := 1\<rparr>)) =
     Inl (Error [54872, 44221, 48320, 49688, 32, 79, 80, 69, 78, 65, 73, 95, 65, 80, 73, 95, 75,
                 69, 89, 44032, 32, 49444, 51221, 46104, 50612, 32, 51080, 51648, 32, 50506,
                 49845, 45768, 45796, 46]) \<and>
   fst (summarize_commit fault_host (sample_commit ''bbbbbbbb22'' 2 15 ''two'')
          (sample_state\<lparr>outside := 5\<rparr>)) = Inl (Error (js ''down'')) \<and>
   fst (summarize_commit fault_host (sample_commit ''dddddddd44'' 2 16 ''four'')
          (sample_state\<lparr>outside := 7\<rparr>)) =
     Inl (Error [47784, 45944, 51060, 32, 50976, 54952, 54620, 32, 51025, 45813, 51012, 32,
                 48152, 54872, 54616, 51648, 32, 50506, 50520, 49845, 45768, 45796, 46]) \<and>
   fst (summarize_commit fault_host (sample_commit ''aaaaaaaa11'' 3 12 ''one'')
          (sample_state\<lparr>outside := 1\<rparr>)) = Inr (js ''ok'') \<and>
   fst (commit_loop fault_host 0
          [sample_commit ''bbbbbbbb22'' 2 15 ''two'', sample_commit ''dddddddd44'' 2 16 ''four'']
          ([], sample_state\<lparr>outside := 5\<rparr>)) =
     [35, 35, 32, 52964, 48139, 32, 49, 58, 32, 98, 98, 98, 98, 98, 98, 98, 32, 40, 50724, 47448,
      32, 48156, 49373, 41, 10, 42, 42, 50724, 47448, 42, 42, 58, 32, 100, 111, 119, 110, 10, 10,
      35, 35, 32, 52964, 48139, 32, 50, 58, 32, 100, 100, 100, 100, 100, 100, 100, 32, 40, 50724,
      47448, 32, 48156, 49373, 41, 10, 42, 42, 50724, 47448, 42, 42, 58, 32, 47784, 45944, 51060,
      32, 50976, 54952, 54620, 32, 51025, 45813, 51012, 32, 48152, 54872, 54616, 51648, 32,
      50506, 50520, 49845, 45768, 45796, 46, 10, 10] \<and>
   fst (summarize_all fault_host
          [sample_commit ''bbbbbbbb22'' 2 15 ''two'', sample_commit ''dddddddd44'' 2 16 ''four'']
          (sample_state\<lparr>outside := 5\<rparr>)) ! 1 =
     Inl (Error [47784, 45944, 51060, 32, 50976, 54952, 54620, 32, 51025, 45813, 51012, 32,
                 48152, 54872, 54616, 51648, 32, 50506, 50520, 49845, 45768, 45796, 46]) \<and>
   errors_of (trace (snd (commit_loop fault_host 0
          [sample_commit ''bbbbbbbb22'' 2 15 ''two'', sample_commit ''dddddddd44'' 2 16 ''four'']
          ([], sample_state\<lparr>outside := 5\<rparr>)))) =
     [([52964, 48139, 32, 98, 98, 98, 98, 98, 98, 98, 98, 50, 50, 32, 52376, 47532, 32, 51473,
        32, 50724, 47448, 58],
       Error (js ''down'')),
      ([52964, 48139, 32, 100, 100, 100, 100, 100, 100, 100, 100, 52, 52, 32, 52376, 47532, 32,
        51473, 32, 50724, 47448, 58],
       Error [47784, 45944, 51060, 32, 50976, 54952, 54620, 32, 51025, 45813, 51012, 32, 48152,
              54872, 54616, 51648, 32, 50506, 50520, 49845, 45768, 45796, 46])] \<and>
   run_results fault_host sample_answers fault_buckets
       (run_start sample_answers fault_commits 1 sample_state) ! 1 =
     [Inl (Error (js ''down'')),
      Inl (Error [47784, 45944, 51060, 32, 50976, 54952, 54620, 32, 51025, 45813, 51012, 32,
                  48152, 54872, 54616, 51648, 32, 50506, 50520, 49845, 45768, 45796, 46])] \<and>
   writes_of (trace (main fault_host sample_answers sample_state)) =
     [(js ''repo/commit-report-2024-01-03.md'',
       [35, 32, 50, 48, 50, 52, 45, 48, 49, 45, 48, 51, 32, 52964, 48139, 32, 47532, 54252,
        53944, 10, 10, 52509, 32, 50, 44060, 51032, 32, 52964, 48139, 10, 10, 35, 35, 32, 52964,
        48139, 32, 49, 58, 32, 97, 97, 97, 97, 97, 97, 97, 10, 42, 42, 47700, 49884, 51648, 42,
        42, 58, 32, 111, 110, 101, 10, 10, 35, 35, 35, 32, 65, 73, 32, 50836, 50557, 10, 111,
        107, 10, 10, 45, 45, 45, 10, 10, 35, 35, 32, 52964, 48139, 32, 50, 58, 32, 99, 99, 99,
        99, 99, 99, 99, 32, 40, 50724, 47448, 32, 48156, 49373, 41, 10, 42, 42, 50724, 47448, 42,
        42, 58, 32, 98, 97, 100, 10, 10]),
      (js ''repo/commit-report-2024-01-02.md'',
       [35, 32, 50, 48, 50, 52, 45, 48, 49, 45, 48, 50, 32, 52964, 48139, 32, 47532, 54252,
        53944, 10, 10, 52509, 32, 50, 44060, 51032, 32, 52964, 48139, 10, 10, 35, 35, 32, 52964,
        48139, 32, 49, 58, 32, 98, 98, 98, 98, 98, 98, 98, 32, 40, 50724, 47448, 32, 48156,
        49373, 41, 10, 42, 42, 50724, 47448, 42, 42, 58, 32, 100, 111, 119, 110, 10, 10, 35, 35,
        32, 52964, 48139, 32, 50, 58, 32, 100, 100, 100, 100, 100, 100, 100, 32, 40, 50724,
        47448, 32, 48156, 49373, 41, 10, 42, 42, 50724, 47448, 42, 42, 58, 32, 47784, 45944,
        51060, 32, 50976, 54952, 54620, 32, 51025, 45813, 51012, 32, 48152, 54872, 54616, 51648,
        32, 50506, 50520, 49845, 45768, 45796, 46, 10, 10]),
      (js ''repo/commit-report-2024-01-05.md'',
       [35, 32, 50, 48, 50, 52, 45, 48, 49, 45, 48, 53, 32, 52964, 48139, 32, 47532, 54252,
        53944, 10, 10, 52509, 32, 49, 44060, 51032, 32, 52964, 48139, 10, 10, 35, 35, 32, 52964,
        48139, 32, 49, 58, 32, 101, 101, 101, 101, 101, 101, 101, 10, 42, 42, 47700, 49884,
        51648, 42, 42, 58, 32, 102, 105, 118, 101, 10, 10, 35, 35, 35, 32, 65, 73, 32, 50836,
        50557, 10, 111, 107, 10, 10, 45, 45, 45, 10, 10])]"
proof -
  let ?c1 = "sample_commit ''aaaaaaaa11'' 3 12 ''one''"
  let ?c2 = "sample_commit ''bbbbbbbb22'' 2 15 ''two''"
  let ?c3 = "sample_commit ''cccccccc33'' 4 5 ''three''"
  let ?c4 = "sample_commit ''dddddddd44'' 2 16 ''four''"
  let ?nokey = "fault_host\<lparr>OPENAI_API_KEY := None\<rparr>"
  note t = failure_isolation [OF fault_window_host fault_git_log fault_commits_nonempty fault_grouping]
  have wk: "window_check (tza ?nokey) (startDate sample_answers) (endDate sample_answers) = None"
    using fault_window_host by simp
  have gk: "git_log ?nokey (logOptions sample_answers) (outside sample_state) = (Inr fault_commits, 1)"
    using fault_git_log by simp
  note tk = failure_isolation [OF wk gk fault_commits_nonempty fault_grouping]
  have nt: "err_no_text = [47784, 45944, 51060, 32, 50976, 54952, 54620, 32, 51025, 45813, 51012, 32,
                       48152, 54872, 54616, 51648, 32, 50506, 50520, 49845, 45768, 45796, 46]"
    by (simp add: err_no_text_def js_def)
  have nk: "err_api_key = [54872, 44221, 48320, 49688, 32, 79, 80, 69, 78, 65, 73, 95, 65, 80, 73,
                       95, 75, 69, 89, 44032, 32, 49444, 51221, 46104, 50612, 32, 51080, 51648,
                       32, 50506, 49845, 45768, 45796, 46]"
    by (simp add: err_api_key_def js_def)
  have 1: "fst (summarize_commit fault_host ?c3 (sample_state\<lparr>outside := 3\<rparr>)) = Inl (Error (js ''bad''))"
    using t [where c = ?c3 and sc = "sample_state\<lparr>outside := 3\<rparr>" and e = "Error (js ''bad'')" and ?x1.0 = 4,
        THEN conjunct1]
    by (simp add: fault_host_fields)
  have 2: "fst (summarize_commit ?nokey ?c1 (sample_state\<lparr>outside := 1\<rparr>)) = Inl (Error err_api_key)"
    using tk [where c = ?c1 and sc = "sample_state\<lparr>outside := 1\<rparr>" and t = "js ''diff''" and ?x1.0 = 2,
        THEN conjunct2, THEN conjunct1]
    by (simp add: fault_host_fields)
  have 3: "fst (summarize_commit fault_host ?c2 (sample_state\<lparr>outside := 5\<rparr>)) = Inl (Error (js ''down''))"
    using t [where c = ?c2 and sc = "sample_state\<lparr>outside := 5\<rparr>" and t = "js ''diff''" and ?x1.0 = 6
        and k = "js ''key''" and e = "Error (js ''down'')" and ?x2.0 = 7,
        THEN conjunct2, THEN conjunct2, THEN conjunct1]
    by (simp add: fault_host_fields js_def)
  have 4: "fst (summarize_commit fault_host ?c4 (sample_state\<lparr>outside := 7\<rparr>)) = Inl (Error err_no_text)"
    using t [where c = ?c4 and sc = "sample_state\<lparr>outside := 7\<rparr>" and t = "js ''diff''" and ?x1.0 = 8
        and k = "js ''key''" and completion = blank_completion and ?x2.0 = 9,
        THEN conjunct2, THEN conjunct2, THEN conjunct2, THEN conjunct1]
    by (simp add: fault_host_fields blank_completion_text js_def)
  have 5: "fst (summarize_commit fault_host ?c1 (sample_state\<lparr>outside := 1\<rparr>)) = Inr (js ''ok'')"
    using t [where c = ?c1 and sc = "sample_state\<lparr>outside := 1\<rparr>" and t = "js ''diff''" and ?x1.0 = 2
        and k = "js ''key''" and completion = sample_completion and ?x2.0 = 3 and reply = "js ''ok''",
        THEN conjunct2, THEN conjunct2, THEN conjunct2, THEN conjunct2, THEN conjunct1]
    by (simp add: fault_host_fields sample_completion_text js_def)
  have r6: "fst (summarize_all fault_host [?c2, ?c4] (sample_state\<lparr>outside := 5\<rparr>)) =
      [Inl (Error (js ''down'')), Inl (Error err_no_text)]"
    by (simp add: fault_summarize console_simps Let_def split_beta)
  have u: "[0..<2] = [0, 1::nat]" by (simp add: upt_conv_Cons)
  have n: "length [?c2, ?c4] = 2" by simp
  have 6: "fst (commit_loop fault_host 0 [?c2, ?c4] ([], sample_state\<lparr>outside := 5\<rparr>)) =
     [35, 35, 32, 52964, 48139, 32, 49, 58, 32, 98, 98, 98, 98, 98, 98, 98, 32, 40, 50724, 47448,
      32, 48156, 49373, 41, 10, 42, 42, 50724, 47448, 42, 42, 58, 32, 100, 111, 119, 110, 10, 10,
      35, 35, 32, 52964, 48139, 32, 50, 58, 32, 100, 100, 100, 100, 100, 100, 100, 32, 40, 50724,
      47448, 32, 48156, 49373, 41, 10, 42, 42, 50724, 47448, 42, 42, 58, 32, 47784, 45944, 51060,
      32, 50976, 54952, 54620, 32, 51025, 45813, 51012, 32, 48152, 54872, 54616, 51648, 32,
      50506, 50520, 49845, 45768, 45796, 46, 10, 10]"
    unfolding t [where cs = "[?c2, ?c4]" and sd = "sample_state\<lparr>outside := 5\<rparr>" and rep = "[]",
        THEN conjunct2, THEN conjunct2, THEN conjunct2, THEN conjunct2, THEN conjunct2, THEN conjunct1]
      r6 n u
    by (simp add: js_def sample_commit_def dec.simps nt)
  have "fst (summarize_all fault_host [?c2, ?c4] (sample_state\<lparr>outside := 5\<rparr>)) ! 1 =
      fst (summarize_commit fault_host ([?c2, ?c4] ! 1)
            (console_log (msg_processing ([?c2, ?c4] ! 1))
               (snd (commit_loop fault_host 0 (take 1 [?c2, ?c4]) ([], sample_state\<lparr>outside := 5\<rparr>)))))"
    using t [where cs = "[?c2, ?c4]" and sd = "sample_state\<lparr>outside := 5\<rparr>" and rep = "[]",
        THEN conjunct2, THEN conjunct2, THEN conjunct2, THEN conjunct2, THEN conjunct2, THEN conjunct2,
        THEN conjunct2, THEN conjunct1, rule_format, of 1]
    by simp
  also have "\<dots> = Inl (Error err_no_text)"
    by (simp add: fault_summarize console_simps commit_loop_state Let_def split_beta)
  finally have 7: "fst (summarize_all fault_host [?c2, ?c4] (sample_state\<lparr>outside := 5\<rparr>)) ! 1 =
      Inl (Error err_no_text)" .
  have 10: "errors_of (trace (snd (commit_loop fault_host 0 [?c2, ?c4] ([], sample_state\<lparr>outside := 5\<rparr>)))) =
     [([52964, 48139, 32, 98, 98, 98, 98, 98, 98, 98, 98, 50, 50, 32, 52376, 47532, 32, 51473,
        32, 50724, 47448, 58],
       Error (js ''down'')),
      ([52964, 48139, 32, 100, 100, 100, 100, 100, 100, 100, 100, 52, 52, 32, 52376, 47532, 32,
        51473, 32, 50724, 47448, 58],
       Error err_no_text)]"
    unfolding t [where cs = "[?c2, ?c4]" and sd = "sample_state\<lparr>outside := 5\<rparr>" and rep = "[]",
        THEN conjunct2, THEN conjunct2, THEN conjunct2, THEN conjunct2, THEN conjunct2, THEN conjunct2,
        THEN conjunct2, THEN conjunct2, THEN conjunct1]
      r6
    by (simp add: js_def sample_commit_def sample_state_def)
  note tr = t [unfolded Let_def, THEN conjunct2, THEN conjunct2, THEN conjunct2, THEN conjunct2,
      THEN conjunct2, THEN conjunct2, THEN conjunct2, THEN conjunct2, THEN conjunct2]
  let ?st0 = "run_start sample_answers fault_commits 1 sample_state"
  have "run_results fault_host sample_answers fault_buckets ?st0 ! 1 =
      fst (summarize_all fault_host (snd (fault_buckets ! 1))
            (console_log (msg_day_header (fst (fault_buckets ! 1)) (length (snd (fault_buckets ! 1))))
               (day_loop fault_host sample_answers (take 1 fault_buckets) ?st0)))"
    using tr [THEN conjunct2, THEN conjunct2, THEN conjunct2, THEN conjunct2, THEN conjunct2,
        rule_format, of 1]
    by (simp add: fault_buckets_def)
  also have "\<dots> = [Inl (Error (js ''down'')), Inl (Error err_no_text)]"
    by (simp add: fault_buckets_def run_start_def fault_summarize process_day_eq day_start_def
        day_results_def console_simps Let_def split_beta fault_host_fields sample_state_def)
  finally have 8: "run_results fault_host sample_answers fault_buckets ?st0 ! 1 =
      [Inl (Error (js ''down'')), Inl (Error err_no_text)]" .
  have w: "writes_of (trace sample_state) = []" by (simp add: sample_state_def)
  have 9: "writes_of (trace (main fault_host sample_answers sample_state)) =
     [(js ''repo/commit-report-2024-01-03.md'',
       [35, 32, 50, 48, 50, 52, 45, 48, 49, 45, 48, 51, 32, 52964, 48139, 32, 47532, 54252,
        53944, 10, 10, 52509, 32, 50, 44060, 51032, 32, 52964, 48139, 10, 10, 35, 35, 32, 52964,
        48139, 32, 49, 58, 32, 97, 97, 97, 97, 97, 97, 97, 10, 42, 42, 47700, 49884, 51648, 42,
        42, 58, 32, 111, 110, 101, 10, 10, 35, 35, 35, 32, 65, 73, 32, 50836, 50557, 10, 111,
        107, 10, 10, 45, 45, 45, 10, 10, 35, 35, 32, 52964, 48139, 32, 50, 58, 32, 99, 99, 99,
        99, 99, 99, 99, 32, 40, 50724, 47448, 32, 48156, 49373, 41, 10, 42, 42, 50724, 47448, 42,
        42, 58, 32, 98, 97, 100, 10, 10]),
      (js ''repo/commit-report-2024-01-02.md'',
       [35, 32, 50, 48, 50, 52, 45, 48, 49, 45, 48, 50, 32, 52964, 48139, 32, 47532, 54252,
        53944, 10, 10, 52509, 32, 50, 44060, 51032, 32, 52964, 48139, 10, 10, 35, 35, 32, 52964,
        48139, 32, 49, 58, 32, 98, 98, 98, 98, 98, 98, 98, 32, 40, 50724, 47448, 32, 48156,
        49373, 41, 10, 42, 42, 50724, 47448, 42, 42, 58, 32, 100, 111, 119, 110, 10, 10, 35, 35,
        32, 52964, 48139, 32, 50, 58, 32, 100, 100, 100, 100, 100, 100, 100, 32, 40, 50724,
        47448, 32, 48156, 49373, 41, 10, 42, 42, 50724, 47448, 42, 42, 58, 32, 47784, 45944,
        51060, 32, 50976, 54952, 54620, 32, 51025, 45813, 51012, 32, 48152, 54872, 54616, 51648,
        32, 50506, 50520, 49845, 45768, 45796, 46, 10, 10]),
      (js ''repo/commit-report-2024-01-05.md'',
       [35, 32, 50, 48, 50, 52, 45, 48, 49, 45, 48, 53, 32, 52964, 48139, 32, 47532, 54252,
        53944, 10, 10, 52509, 32, 49, 44060, 51032, 32, 52964, 48139, 10, 10, 35, 35, 32, 52964,
        48139, 32, 49, 58, 32, 101, 101, 101, 101, 101, 101, 101, 10, 42, 42, 47700, 49884,
        51648, 42, 42, 58, 32, 102, 105, 118, 101, 10, 10, 35, 35, 35, 32, 65, 73, 32, 50836,
        50557, 10, 111, 107, 10, 10, 45, 45, 45, 10, 10])]"
    unfolding tr [THEN conjunct2, THEN conjunct1] fault_results w
    by (simp add: fault_buckets_def fault_host_fields sample_answers_def js_def sample_commit_def
        dec.simps nt upt_conv_Cons)
  from 1 2 [unfolded nk] 3 4 [unfolded nt] 5 6 7 [unfolded nt] 10 [unfolded nt] 8 [unfolded nt] 9
  show ?thesis by (intro conjI)
qed

end
